theory Spec2Isabelle
  imports Main "HOL-Library.Word"
begin

unbundle bit_operations_syntax

section \<open>Data model\<close>

type_synonym byte = "8 word"
type_synonym bytes = "byte list"
type_synonym u32 = "32 word"
type_synonym u64 = "64 word"

text \<open>
  Ways in which a C function of the core stops without returning a value: a failed
  \<^verbatim>\<open>assert\<close>, a read through a null pointer, a read past the end of an array.
\<close>

datatype fault = Assert_failed | Null_deref | Out_of_bounds

text \<open>Modelled from the spec: the constant \<^verbatim>\<open>HASH_SIZE = 32\<close> (its header is not among the sources).\<close>

definition HASH_SIZE :: nat where
  "HASH_SIZE = 32"

text \<open>\<^verbatim>\<open>transaction.h\<close>: the structs, with a pointer that may be null as an option.\<close>

record input_transaction =
  transaction :: bytes
  txout_index :: u32
  signature :: bytes
  public_key :: bytes

record output_transaction =
  amount :: u64
  address :: bytes

record transaction_t =
  id_tx :: bytes
  txin_count :: byte
  txout_count :: byte
  txins :: "input_transaction option list"
  txouts :: "output_transaction option list"

text \<open>
  What the core takes from outside the source files at hand: the clock, the consensus
  constants of \<^verbatim>\<open>parameters.h\<close>, the libsodium primitives and the proof-of-work check.
  \<^verbatim>\<open>buffer_storage k\<close> is the byte that stands at position \<open>k\<close> of a buffer's
  storage as long as nothing has been written there. Three functions of
  \<^verbatim>\<open>transaction.c\<close> that the spec does not describe are taken as they come, by their
  return codes: \<^verbatim>\<open>validate_tx_signatures\<close>, \<^verbatim>\<open>compare_transaction\<close> and
  \<^verbatim>\<open>copy_transaction\<close> (called with the receiving pointer, which it gets by value).
\<close>

record params =
  get_current_time :: u32
  MAX_FUTURE_BLOCK_TIME :: u32
  MAX_BLOCK_SIZE :: u32
  BLOCK_HEADER_SIZE :: nat
  BLOCK_VERSION :: u32
  ADDRESS_SIZE :: nat
  crypto_hash_sha256d :: "bytes \<Rightarrow> bytes"
  crypto_sign_verify_detached :: "bytes \<Rightarrow> bytes \<Rightarrow> bytes \<Rightarrow> bool"
  check_proof_of_work :: "bytes \<Rightarrow> u32 \<Rightarrow> int"
  buffer_storage :: "nat \<Rightarrow> byte"
  validate_tx_signatures :: "transaction_t \<Rightarrow> int"
  compare_transaction :: "transaction_t \<Rightarrow> transaction_t \<Rightarrow> int"
  copy_transaction :: "transaction_t \<Rightarrow> transaction_t option \<Rightarrow> fault + int"

text \<open>
  The block of \<^verbatim>\<open>make_block\<close>: \<^verbatim>\<open>transactions\<close> is a pointer to an array of
  transaction pointers; \<open>None\<close> is the null pointer, at either level.
\<close>

record block_t =
  version :: u32
  previous_hash :: bytes
  hash :: bytes
  timestamp :: u32
  nonce :: u32
  bits :: u32
  cumulative_emission :: u64
  merkle_root :: bytes
  transaction_count :: u32
  transactions :: "transaction_t option list option"

section \<open>Merkle tree (merkle.c)\<close>

datatype merkle_node =
  Merkle_node (node_hash: bytes) (left: "merkle_node option") (right: "merkle_node option")

datatype merkle_tree = Merkle_tree (root: merkle_node)

text \<open>
  \<^verbatim>\<open>construct_merkle_node\<close>: the two child hashes are copied side by side into a
  64-byte array, which is hashed into the new node.
\<close>

definition construct_merkle_node :: "params \<Rightarrow> merkle_node \<Rightarrow> merkle_node \<Rightarrow> merkle_node" where
  "construct_merkle_node p l r =
     (let combined_hash = node_hash l @ node_hash r;
          node_hash = crypto_hash_sha256d p combined_hash
      in Merkle_node node_hash (Some l) (Some r))"

text \<open>
  \<^verbatim>\<open>construct_merkle_leaves_from_hashes\<close>: leaf \<open>i\<close> takes the 32 bytes at
  \<^verbatim>\<open>hashes[i * HASH_SIZE]\<close>, the index computed in 32 bits; a read past the end of the
  buffer is a fault. The result is the array \<^verbatim>\<open>nodes\<close> up to \<^verbatim>\<open>num_of_nodes\<close>.
\<close>

fun merkle_leaves_loop :: "bytes \<Rightarrow> nat list \<Rightarrow> fault + merkle_node list" where
  "merkle_leaves_loop hashes [] = Inr []"
| "merkle_leaves_loop hashes (i # is) =
     (let off = unat (word_of_nat i * word_of_nat HASH_SIZE :: u32) in
      if length hashes < off + HASH_SIZE then Inl Out_of_bounds
      else (case merkle_leaves_loop hashes is of
              Inl f \<Rightarrow> Inl f
            | Inr nodes \<Rightarrow> Inr (Merkle_node (take HASH_SIZE (drop off hashes)) None None # nodes)))"

definition construct_merkle_leaves_from_hashes :: "bytes \<Rightarrow> u32 \<Rightarrow> fault + merkle_node list" where
  "construct_merkle_leaves_from_hashes hashes num_of_hashes =
     merkle_leaves_loop hashes [0..<unat num_of_hashes]"

text \<open>
  \<^verbatim>\<open>collapse_merkle_nodes\<close> on the live part of \<^verbatim>\<open>nodes\<close>, whose length is
  \<^verbatim>\<open>num_of_nodes\<close>: the first loop pairs \<open>nodes[i]\<close> with \<open>nodes[i + 1]\<close> for
  \<open>i = 0, 2, ...\<close> below \<open>num_of_nodes - 1\<close>; for an odd count the last node is then paired
  with itself. The result is the new live part. With no node at all the bound
  \<open>num_of_nodes - 1\<close> wraps around in 32 bits and the loop reads past the array.
\<close>

definition collapse_merkle_nodes :: "params \<Rightarrow> merkle_node list \<Rightarrow> fault + merkle_node list" where
  "collapse_merkle_nodes p nodes =
     (let num_of_nodes = length nodes in
      if num_of_nodes = 0 then Inl Out_of_bounds
      else
        (let temp_nodes =
               map (\<lambda>i. construct_merkle_node p (nodes ! i) (nodes ! (i + 1)))
                 (filter even [0..<num_of_nodes - 1]);
             temp_nodes =
               (if num_of_nodes mod 2 \<noteq> 0
                then temp_nodes @ [construct_merkle_node p (nodes ! (num_of_nodes - 1))
                                     (nodes ! (num_of_nodes - 1))]
                else temp_nodes)
         in Inr temp_nodes))"

text \<open>The loop \<^verbatim>\<open>while (num_of_nodes > 1) collapse_merkle_nodes(nodes, &num_of_nodes)\<close>.\<close>

function collapse_until_root :: "params \<Rightarrow> merkle_node list \<Rightarrow> fault + merkle_node list" where
  "collapse_until_root p nodes =
     (if length nodes > 1
      then (case collapse_merkle_nodes p nodes of
              Inl f \<Rightarrow> Inl f
            | Inr nodes' \<Rightarrow> collapse_until_root p nodes')
      else Inr nodes)"
  by pat_completeness auto
termination
proof (relation "measure (\<lambda>(p, nodes). length nodes)")
  show "wf (measure (\<lambda>(p, nodes). length nodes))"
    by simp
next
  fix p :: params and nodes nodes' :: "merkle_node list"
  assume more: "1 < length nodes" and step: "collapse_merkle_nodes p nodes = Inr nodes'"
  have evens: "length (filter even [0..<m]) = (m + 1) div 2" for m :: nat
    by (induction m) auto
  from more step have "length nodes' = (length nodes + 1) div 2"
    by (auto simp add: collapse_merkle_nodes_def Let_def evens split: if_splits) presburger+
  with more show "((p, nodes'), (p, nodes)) \<in> measure (\<lambda>(p, nodes). length nodes)"
    by simp
qed

text \<open>The same pairing by recursion on the list, two nodes at a time.\<close>

fun pair_up :: "params \<Rightarrow> merkle_node list \<Rightarrow> merkle_node list" where
  "pair_up p (l # r # nodes) = construct_merkle_node p l r # pair_up p nodes"
| "pair_up p [n] = [construct_merkle_node p n n]"
| "pair_up p [] = []"

text \<open>
  \<^verbatim>\<open>construct_merkle_tree_from_leaves\<close>: no tree (a null pointer) for an empty list,
  otherwise the tree whose root is \<^verbatim>\<open>nodes[0]\<close> after the collapsing loop.
\<close>

definition construct_merkle_tree_from_leaves :: "params \<Rightarrow> bytes \<Rightarrow> u32 \<Rightarrow> fault + merkle_tree option" where
  "construct_merkle_tree_from_leaves p hashes num_of_hashes =
     (if num_of_hashes < 1 then Inr None
      else (case construct_merkle_leaves_from_hashes hashes num_of_hashes of
              Inl f \<Rightarrow> Inl f
            | Inr nodes \<Rightarrow>
                (case collapse_until_root p nodes of
                   Inl f \<Rightarrow> Inl f
                 | Inr [] \<Rightarrow> Inl Out_of_bounds
                 | Inr (n # _) \<Rightarrow> Inr (Some (Merkle_tree n)))))"

section \<open>Codec primitives\<close>

text \<open>
  Modelled from the spec: the byte buffer of \<^verbatim>\<open>common/buffer.c\<close> and its iterator, which
  are not among the sources. "Integers are little-endian fixed-width (u32, u64, u8).
  Variable-length byte fields use a 4-byte little-endian length prefix followed by the
  bytes." A buffer is the list of the bytes written to it so far; a write appends and
  reports 0.
\<close>

type_synonym buffer = bytes

primrec le_bytes :: "nat \<Rightarrow> 'a::len word \<Rightarrow> bytes" where
  "le_bytes 0 w = []"
| "le_bytes (Suc n) w = ucast w # le_bytes n (drop_bit 8 w)"

primrec le_word :: "bytes \<Rightarrow> 'a::len word" where
  "le_word [] = 0"
| "le_word (b # bs) = ucast b OR push_bit 8 (le_word bs)"

definition buffer_write :: "buffer \<Rightarrow> bytes \<Rightarrow> nat \<Rightarrow> int \<times> buffer" where
  "buffer_write buf d n = (0, buf @ take n d)"

definition buffer_write_uint32 :: "buffer \<Rightarrow> u32 \<Rightarrow> int \<times> buffer" where
  "buffer_write_uint32 buf v = (0, buf @ le_bytes 4 v)"

definition buffer_write_uint64 :: "buffer \<Rightarrow> u64 \<Rightarrow> int \<times> buffer" where
  "buffer_write_uint64 buf v = (0, buf @ le_bytes 8 v)"

definition buffer_write_bytes32 :: "buffer \<Rightarrow> bytes \<Rightarrow> nat \<Rightarrow> int \<times> buffer" where
  "buffer_write_bytes32 buf d n = (0, buf @ le_bytes 4 (word_of_nat n :: u32) @ take n d)"

text \<open>
  Modelled from the spec: the reading side. "Decoding fails (returns an error, never
  partially succeeds) on short input, oversize length prefixes (a length field exceeding
  the remaining buffer)". \<open>None\<close> is the non-zero return; otherwise the value read and
  the iterator moved behind it.
\<close>

record buffer_iterator =
  buffer :: bytes
  offset :: nat

definition buffer_iterator_init :: "buffer \<Rightarrow> buffer_iterator" where
  "buffer_iterator_init buf = \<lparr>buffer = buf, offset = 0\<rparr>"

definition buffer_read :: "buffer_iterator \<Rightarrow> nat \<Rightarrow> (bytes \<times> buffer_iterator) option" where
  "buffer_read it n =
     (if length (buffer it) < offset it + n then None
      else Some (take n (drop (offset it) (buffer it)), it\<lparr>offset := offset it + n\<rparr>))"

definition buffer_read_uint32 :: "buffer_iterator \<Rightarrow> (u32 \<times> buffer_iterator) option" where
  "buffer_read_uint32 it =
     (case buffer_read it 4 of None \<Rightarrow> None | Some (bs, it') \<Rightarrow> Some (le_word bs, it'))"

definition buffer_read_uint64 :: "buffer_iterator \<Rightarrow> (u64 \<times> buffer_iterator) option" where
  "buffer_read_uint64 it =
     (case buffer_read it 8 of None \<Rightarrow> None | Some (bs, it') \<Rightarrow> Some (le_word bs, it'))"

definition buffer_read_bytes32 :: "buffer_iterator \<Rightarrow> (bytes \<times> buffer_iterator) option" where
  "buffer_read_bytes32 it =
     (case buffer_read_uint32 it of
        None \<Rightarrow> None
      | Some (n, it') \<Rightarrow> buffer_read it' (unat n))"

text \<open>
  The chain \<^verbatim>\<open>w1(buffer, ...) || w2(buffer, ...) || ...\<close>: the writes run in order on
  the same buffer until one reports non-zero.
\<close>

definition or_else :: "int \<times> buffer \<Rightarrow> (buffer \<Rightarrow> int \<times> buffer) \<Rightarrow> int \<times> buffer" where
  "or_else r w = (if fst r \<noteq> 0 then r else w (snd r))"

text \<open>
  Modelled from the spec: \<^verbatim>\<open>compare_hash\<close> of \<^verbatim>\<open>common/util.c\<close>, not among the
  sources: 1 when the two 32-byte arrays hold the same bytes, 0 otherwise.
\<close>

definition compare_hash :: "bytes \<Rightarrow> bytes \<Rightarrow> int" where
  "compare_hash a b = (if a = b then 1 else 0)"

text \<open>An array element read through a pointer that may be null.\<close>

definition array_read :: "'a list option \<Rightarrow> nat \<Rightarrow> fault + 'a" where
  "array_read arr i =
     (case arr of
        None \<Rightarrow> Inl Null_deref
      | Some xs \<Rightarrow> if i < length xs then Inr (xs ! i) else Inl Out_of_bounds)"

section \<open>Block header and block serialization (block.c)\<close>

definition make_block :: "params \<Rightarrow> block_t" where
  "make_block p =
     \<lparr>version = BLOCK_VERSION p,
      previous_hash = replicate HASH_SIZE 0,
      hash = replicate HASH_SIZE 0,
      timestamp = 0,
      nonce = 0,
      bits = 0,
      cumulative_emission = 0,
      merkle_root = replicate HASH_SIZE 0,
      transaction_count = 0,
      transactions = None\<rparr>"

definition valid_block_timestamp :: "params \<Rightarrow> block_t \<Rightarrow> int" where
  "valid_block_timestamp p block =
     (if timestamp block \<le> get_current_time p + MAX_FUTURE_BLOCK_TIME p then 1 else 0)"

definition serialize_block_header :: "buffer \<Rightarrow> block_t \<Rightarrow> int \<times> buffer" where
  "serialize_block_header buf block =
     (let r = buffer_write_uint32 buf (version block);
          r = or_else r (\<lambda>buf. buffer_write_uint32 buf (timestamp block));
          r = or_else r (\<lambda>buf. buffer_write_uint32 buf (nonce block));
          r = or_else r (\<lambda>buf. buffer_write_uint32 buf (bits block));
          r = or_else r (\<lambda>buf. buffer_write_uint64 buf (cumulative_emission block));
          r = or_else r (\<lambda>buf. buffer_write buf (previous_hash block) HASH_SIZE);
          r = or_else r (\<lambda>buf. buffer_write buf (merkle_root block) HASH_SIZE)
      in if fst r \<noteq> 0 then (1, snd r) else (0, snd r))"

text \<open>
  \<^verbatim>\<open>compute_block_hash\<close>: the header is serialized into a buffer made by
  \<^verbatim>\<open>buffer_init_size(0, BLOCK_HEADER_SIZE)\<close>; then \<^verbatim>\<open>BLOCK_HEADER_SIZE\<close> bytes are
  copied out of the buffer's storage and hashed. \<open>None\<close> is the return value 1 (nothing
  is written to \<^verbatim>\<open>hash\<close>), \<open>Some h\<close> the return value 0 with \<open>h\<close> written.
\<close>

definition compute_block_hash :: "params \<Rightarrow> block_t \<Rightarrow> bytes option" where
  "compute_block_hash p block =
     (case serialize_block_header [] block of
        (r, buf) \<Rightarrow>
          if r \<noteq> 0 then None
          else
            (let header = map (\<lambda>k. if k < length buf then buf ! k else buffer_storage p k)
                              [0..<BLOCK_HEADER_SIZE p]
             in Some (crypto_hash_sha256d p header)))"

definition valid_block_hash :: "params \<Rightarrow> block_t \<Rightarrow> int" where
  "valid_block_hash p block =
     (case compute_block_hash p block of
        None \<Rightarrow> 0
      | Some expected_block_hash \<Rightarrow>
          (if compare_hash expected_block_hash (hash block) \<noteq> 0
              \<and> check_proof_of_work p (hash block) (bits block) \<noteq> 0
           then 1 else 0))"

definition serialize_block :: "buffer \<Rightarrow> block_t \<Rightarrow> int \<times> buffer" where
  "serialize_block buf block =
     (let r = buffer_write_uint32 buf (version block);
          r = or_else r (\<lambda>buf. buffer_write_bytes32 buf (previous_hash block) HASH_SIZE);
          r = or_else r (\<lambda>buf. buffer_write_bytes32 buf (hash block) HASH_SIZE);
          r = or_else r (\<lambda>buf. buffer_write_uint32 buf (timestamp block));
          r = or_else r (\<lambda>buf. buffer_write_uint32 buf (nonce block));
          r = or_else r (\<lambda>buf. buffer_write_uint32 buf (bits block));
          r = or_else r (\<lambda>buf. buffer_write_uint64 buf (cumulative_emission block));
          r = or_else r (\<lambda>buf. buffer_write_bytes32 buf (merkle_root block) HASH_SIZE);
          r = or_else r (\<lambda>buf. buffer_write_uint32 buf (transaction_count block))
      in if fst r \<noteq> 0 then (1, snd r) else (0, snd r))"

text \<open>
  \<^verbatim>\<open>memcpy(block->previous_hash, previous_hash, HASH_SIZE)\<close> from the array that
  \<^verbatim>\<open>buffer_read_bytes32\<close> allocated: a read past its end when it is shorter than 32 bytes.
\<close>

definition memcpy_hash :: "bytes \<Rightarrow> fault + bytes" where
  "memcpy_hash src = (if length src < HASH_SIZE then Inl Out_of_bounds else Inr (take HASH_SIZE src))"

text \<open>
  \<^verbatim>\<open>deserialize_block\<close>: \<open>Inr None\<close> is the return value 1 (the block made by
  \<^verbatim>\<open>make_block\<close> is freed, \<^verbatim>\<open>*block_out\<close> is left alone), \<open>Inr (Some (block, it))\<close> the
  return value 0. Only the fields below are read: \<^verbatim>\<open>transactions\<close> stays as
  \<^verbatim>\<open>make_block\<close> left it. \<open>on_read\<close> is the test of a read's return code with its
  \<^verbatim>\<open>goto deserialize_fail\<close>.
\<close>

definition on_read ::
    "('a \<times> buffer_iterator) option \<Rightarrow> ('a \<Rightarrow> buffer_iterator \<Rightarrow> fault + 'b option) \<Rightarrow> fault + 'b option" where
  "on_read r k = (case r of None \<Rightarrow> Inr None | Some (v, it) \<Rightarrow> k v it)"

definition on_copy :: "fault + 'a \<Rightarrow> ('a \<Rightarrow> fault + 'b) \<Rightarrow> fault + 'b" where
  "on_copy r k = (case r of Inl f \<Rightarrow> Inl f | Inr v \<Rightarrow> k v)"

definition deserialize_block ::
    "params \<Rightarrow> buffer_iterator \<Rightarrow> fault + (block_t \<times> buffer_iterator) option" where
  "deserialize_block p it =
     (let block = make_block p in
      on_read (buffer_read_uint32 it) (\<lambda>v it.
      let block = block\<lparr>version := v\<rparr> in
      on_read (buffer_read_bytes32 it) (\<lambda>prev it.
      on_copy (memcpy_hash prev) (\<lambda>prev.
      let block = block\<lparr>previous_hash := prev\<rparr> in
      on_read (buffer_read_bytes32 it) (\<lambda>h it.
      on_copy (memcpy_hash h) (\<lambda>h.
      let block = block\<lparr>hash := h\<rparr> in
      on_read (buffer_read_uint32 it) (\<lambda>ts it.
      let block = block\<lparr>timestamp := ts\<rparr> in
      on_read (buffer_read_uint32 it) (\<lambda>n it.
      let block = block\<lparr>nonce := n\<rparr> in
      on_read (buffer_read_uint32 it) (\<lambda>bi it.
      let block = block\<lparr>bits := bi\<rparr> in
      on_read (buffer_read_uint64 it) (\<lambda>ce it.
      let block = block\<lparr>cumulative_emission := ce\<rparr> in
      on_read (buffer_read_bytes32 it) (\<lambda>mr it.
      on_copy (memcpy_hash mr) (\<lambda>mr.
      let block = block\<lparr>merkle_root := mr\<rparr> in
      on_read (buffer_read_uint32 it) (\<lambda>tc it.
      let block = block\<lparr>transaction_count := tc\<rparr> in
      Inr (Some (block, it)))))))))))))))"

text \<open>
  \<^verbatim>\<open>block_to_serialized\<close>: the return code and, on 0, the bytes handed back through
  \<^verbatim>\<open>data\<close> (\<^verbatim>\<open>data_len\<close> is their number).
\<close>

definition block_to_serialized :: "block_t \<Rightarrow> int \<times> bytes option" where
  "block_to_serialized block =
     (case serialize_block [] block of
        (r, buf) \<Rightarrow> if r \<noteq> 0 then (1, None) else (0, Some buf))"

text \<open>\<^verbatim>\<open>block_from_serialized\<close>: \<open>Inr None\<close> is the null pointer.\<close>

definition block_from_serialized :: "params \<Rightarrow> bytes \<Rightarrow> nat \<Rightarrow> fault + block_t option" where
  "block_from_serialized p d data_len =
     (let buf = take data_len d;
          buffer_iterator = buffer_iterator_init buf
      in case deserialize_block p buffer_iterator of
           Inl f \<Rightarrow> Inl f
         | Inr None \<Rightarrow> Inr None
         | Inr (Some (block, _)) \<Rightarrow> Inr (Some block))"

text \<open>The two calls one after the other, \<^verbatim>\<open>block_from_serialized(block_to_serialized(b))\<close>.\<close>

definition serialized_round_trip :: "params \<Rightarrow> block_t \<Rightarrow> fault + block_t option" where
  "serialized_round_trip p block =
     (case block_to_serialized block of
        (r, Some d) \<Rightarrow> block_from_serialized p d (length d)
      | (r, None) \<Rightarrow> Inr None)"

section \<open>Transactions\<close>

text \<open>
  Modelled from the spec: the functions of \<^verbatim>\<open>transaction.c\<close> that \<^verbatim>\<open>block.c\<close> calls;
  only their declarations in \<^verbatim>\<open>transaction.h\<close> are among the sources. The inputs and
  outputs of a transaction are the entries its arrays hold below \<^verbatim>\<open>txin_count\<close> and
  \<^verbatim>\<open>txout_count\<close>.
\<close>

definition present :: "'a option list \<Rightarrow> 'a list" where
  "present xs = concat (map (\<lambda>x. case x of None \<Rightarrow> [] | Some v \<Rightarrow> [v]) xs)"

definition tx_inputs :: "transaction_t \<Rightarrow> input_transaction list" where
  "tx_inputs tx = present (take (unat (txin_count tx)) (txins tx))"

definition tx_outputs :: "transaction_t \<Rightarrow> output_transaction list" where
  "tx_outputs tx = present (take (unat (txout_count tx)) (txouts tx))"

definition zero_tx_hash :: bytes where
  "zero_tx_hash = replicate 32 0"

text \<open>
  Modelled from the spec: "TxIn header (sign preimage). prev_txid (32B) \<parallel> prev_vout (u32 LE).
  TxOut header. amount (u64 LE) \<parallel> address. Transaction sign preimage. Concatenation of
  every TxIn header followed by every TxOut header, in list order. The txid is sha256d of
  this preimage."
\<close>

definition get_txin_header :: "input_transaction \<Rightarrow> bytes" where
  "get_txin_header txin = transaction txin @ le_bytes 4 (txout_index txin)"

definition get_txout_header :: "output_transaction \<Rightarrow> bytes" where
  "get_txout_header txout = le_bytes 8 (amount txout) @ address txout"

definition get_tx_sign_header :: "transaction_t \<Rightarrow> bytes" where
  "get_tx_sign_header tx =
     concat (map get_txin_header (tx_inputs tx)) @ concat (map get_txout_header (tx_outputs tx))"

definition compute_tx_id :: "params \<Rightarrow> transaction_t \<Rightarrow> int \<times> bytes" where
  "compute_tx_id p tx = (0, crypto_hash_sha256d p (get_tx_sign_header tx))"

text \<open>
  Modelled from the spec: "A transaction is a coinbase iff it has exactly one TxIn and that
  TxIn is a coinbase input", "a coinbase input iff prev_txid == zero hash AND
  prev_vout == 0xFFFFFFFF".
\<close>

definition is_coinbase_tx :: "transaction_t \<Rightarrow> int" where
  "is_coinbase_tx tx =
     (if txin_count tx = 1 \<and>
         (case txins tx of
            Some txin # _ \<Rightarrow> transaction txin = zero_tx_hash \<and> txout_index txin = 0xFFFFFFFF
          | _ \<Rightarrow> False)
      then 1 else 0)"

text \<open>
  Modelled from the spec: "valid_transaction(tx): returns true iff (1) txin_count \<ge> 1 and
  txout_count \<ge> 1, (2) compute_txid(tx) == tx.id, (3) every TxOut amount is > 0, (4) the
  sum of TxOut amounts does not overflow u64, (5) for a non-coinbase tx, every input's
  signature verifies under its stated public key over the sign preimage, and (6) for a
  non-coinbase tx, no two inputs share (prev_txid, prev_vout)."
\<close>

definition valid_transaction :: "params \<Rightarrow> transaction_t \<Rightarrow> int" where
  "valid_transaction p tx =
     (if txin_count tx \<ge> 1 \<and> txout_count tx \<ge> 1
         \<and> snd (compute_tx_id p tx) = id_tx tx
         \<and> (\<forall>txout \<in> set (tx_outputs tx). amount txout > 0)
         \<and> sum_list (map (\<lambda>txout. unat (amount txout)) (tx_outputs tx)) < 2 ^ 64
         \<and> (is_coinbase_tx tx = 0 \<longrightarrow>
               (\<forall>txin \<in> set (tx_inputs tx).
                   crypto_sign_verify_detached p (signature txin) (get_tx_sign_header tx) (public_key txin))
               \<and> distinct (map (\<lambda>txin. (transaction txin, txout_index txin)) (tx_inputs tx)))
      then 1 else 0)"

text \<open>
  Modelled from the spec: "get_block_header_size = BLOCK_HEADER_SIZE + \<Sigma> serialized-size(tx)",
  with the transaction serialization "id (length-prefixed 32B), txin_count (u8),
  txout_count (u8), then each TxIn then each TxOut. A TxIn: prev_txid (length-prefixed
  32B), prev_vout (u32), signature (length-prefixed 64B), public_key (length-prefixed 32B).
  A TxOut: amount (u64), address (length-prefixed)".
\<close>

definition get_tx_header_size :: "params \<Rightarrow> transaction_t \<Rightarrow> u32" where
  "get_tx_header_size p tx =
     word_of_nat ((4 + 32) + 1 + 1
        + unat (txin_count tx) * ((4 + 32) + 4 + (4 + 64) + (4 + 32))
        + unat (txout_count tx) * (8 + (4 + ADDRESS_SIZE p)))"

text \<open>
  Modelled from the spec: "(prev_txid, prev_vout)", what an input spends, over all inputs
  of a block. The transactions of a block are the entries its array holds below
  \<^verbatim>\<open>transaction_count\<close>; the inputs of a block are the inputs of its transactions, in
  order. What an input spends is the pair of \<^verbatim>\<open>transaction\<close> and \<^verbatim>\<open>txout_index\<close>.
\<close>

definition block_transactions :: "block_t \<Rightarrow> transaction_t list" where
  "block_transactions block =
     present (take (unat (transaction_count block))
       (case transactions block of None \<Rightarrow> [] | Some txs \<Rightarrow> txs))"

definition block_inputs :: "block_t \<Rightarrow> input_transaction list" where
  "block_inputs block = concat (map tx_inputs (block_transactions block))"

definition outpoint :: "input_transaction \<Rightarrow> bytes \<times> u32" where
  "outpoint txin = (transaction txin, txout_index txin)"

section \<open>Block validation (block.c)\<close>

text \<open>
  A \<^verbatim>\<open>for\<close> loop over the indices in order. The body reports \<open>Some r\<close> for
  \<^verbatim>\<open>return r\<close> and \<open>None\<close> for going on with the next index.
\<close>

fun for_each :: "nat list \<Rightarrow> (nat \<Rightarrow> fault + int option) \<Rightarrow> fault + int option" where
  "for_each [] body = Inr None"
| "for_each (i # is) body =
     (case body i of
        Inl f \<Rightarrow> Inl f
      | Inr (Some r) \<Rightarrow> Inr (Some r)
      | Inr None \<Rightarrow> for_each is body)"

text \<open>The four nested loops of \<^verbatim>\<open>valid_block\<close>, innermost first, each by its body.\<close>

definition second_txin_body ::
    "input_transaction \<Rightarrow> transaction_t \<Rightarrow> nat \<Rightarrow> fault + int option" where
  "second_txin_body txin_first second_tx second_txin_index =
     (case array_read (Some (txins second_tx)) second_txin_index of
        Inl f \<Rightarrow> Inl f
      | Inr None \<Rightarrow> Inr (Some 0)
      | Inr (Some txin_second) \<Rightarrow>
          if compare_hash (transaction txin_first) (transaction txin_second) \<noteq> 0
             \<and> txout_index txin_first = txout_index txin_second
          then Inr (Some 0) else Inr None)"

definition first_txin_body :: "transaction_t \<Rightarrow> transaction_t \<Rightarrow> nat \<Rightarrow> fault + int option" where
  "first_txin_body first_tx second_tx first_txin_index =
     (case array_read (Some (txins first_tx)) first_txin_index of
        Inl f \<Rightarrow> Inl f
      | Inr None \<Rightarrow> Inr (Some 0)
      | Inr (Some txin_first) \<Rightarrow>
          for_each [0..<unat (txin_count second_tx)] (second_txin_body txin_first second_tx))"

definition second_tx_body :: "block_t \<Rightarrow> nat \<Rightarrow> transaction_t \<Rightarrow> nat \<Rightarrow> fault + int option" where
  "second_tx_body block first_tx_index first_tx second_tx_index =
     (case array_read (transactions block) second_tx_index of
        Inl f \<Rightarrow> Inl f
      | Inr None \<Rightarrow> Inr (Some 0)
      | Inr (Some second_tx) \<Rightarrow>
          if first_tx_index = second_tx_index then Inr None
          else if compare_hash (id_tx first_tx) (id_tx second_tx) \<noteq> 0 then Inr (Some 0)
          else for_each [0..<unat (txin_count first_tx)] (first_txin_body first_tx second_tx))"

definition first_tx_body :: "params \<Rightarrow> block_t \<Rightarrow> nat \<Rightarrow> fault + int option" where
  "first_tx_body p block first_tx_index =
     (case array_read (transactions block) first_tx_index of
        Inl f \<Rightarrow> Inl f
      | Inr None \<Rightarrow> Inr (Some 0)
      | Inr (Some first_tx) \<Rightarrow>
          if valid_transaction p first_tx = 0 then Inr (Some 0)
          else if first_tx_index \<noteq> 0 \<and> is_coinbase_tx first_tx \<noteq> 0 then Inr (Some 0)
          else for_each [0..<unat (transaction_count block)]
                 (second_tx_body block first_tx_index first_tx))"

text \<open>\<^verbatim>\<open>get_block_header_size\<close>: the sum runs in 32 bits.\<close>

fun block_header_size_loop :: "params \<Rightarrow> block_t \<Rightarrow> nat list \<Rightarrow> u32 \<Rightarrow> fault + u32" where
  "block_header_size_loop p block [] block_header_size = Inr block_header_size"
| "block_header_size_loop p block (i # is) block_header_size =
     (case array_read (transactions block) i of
        Inl f \<Rightarrow> Inl f
      | Inr None \<Rightarrow> Inl Assert_failed
      | Inr (Some tx) \<Rightarrow>
          block_header_size_loop p block is (block_header_size + get_tx_header_size p tx))"

definition get_block_header_size :: "params \<Rightarrow> block_t \<Rightarrow> fault + u32" where
  "get_block_header_size p block =
     block_header_size_loop p block [0..<unat (transaction_count block)]
       (word_of_nat (BLOCK_HEADER_SIZE p))"

text \<open>
  \<^verbatim>\<open>compute_merkle_root\<close>: the transaction ids are written one behind the other into
  \<^verbatim>\<open>hashes\<close>; \<open>Inr None\<close> is the return value 1.
\<close>

fun tx_ids_loop :: "params \<Rightarrow> block_t \<Rightarrow> nat list \<Rightarrow> fault + bytes option" where
  "tx_ids_loop p block [] = Inr (Some [])"
| "tx_ids_loop p block (i # is) =
     (case array_read (transactions block) i of
        Inl f \<Rightarrow> Inl f
      | Inr None \<Rightarrow> Inl Assert_failed
      | Inr (Some tx) \<Rightarrow>
          (case compute_tx_id p tx of
             (r, h) \<Rightarrow>
               if r \<noteq> 0 then Inr None
               else (case tx_ids_loop p block is of
                       Inl f \<Rightarrow> Inl f
                     | Inr None \<Rightarrow> Inr None
                     | Inr (Some hashes) \<Rightarrow> Inr (Some (h @ hashes)))))"

definition compute_merkle_root :: "params \<Rightarrow> block_t \<Rightarrow> fault + bytes option" where
  "compute_merkle_root p block =
     (case tx_ids_loop p block [0..<unat (transaction_count block)] of
        Inl f \<Rightarrow> Inl f
      | Inr None \<Rightarrow> Inr None
      | Inr (Some hashes) \<Rightarrow>
          (case construct_merkle_tree_from_leaves p hashes (transaction_count block) of
             Inl f \<Rightarrow> Inl f
           | Inr None \<Rightarrow> Inl Assert_failed
           | Inr (Some tree) \<Rightarrow> Inr (Some (node_hash (root tree)))))"

definition valid_merkle_root :: "params \<Rightarrow> block_t \<Rightarrow> fault + int" where
  "valid_merkle_root p block =
     (case compute_merkle_root p block of
        Inl f \<Rightarrow> Inl f
      | Inr None \<Rightarrow> Inr 0
      | Inr (Some mr) \<Rightarrow> Inr (compare_hash mr (merkle_root block)))"

definition valid_block :: "params \<Rightarrow> block_t \<Rightarrow> fault + int" where
  "valid_block p block =
     (if valid_block_timestamp p block = 0 then Inr 0
      else if transaction_count block < 1 then Inr 0
      else
        (case array_read (transactions block) 0 of
           Inl f \<Rightarrow> Inl f
         | Inr None \<Rightarrow> Inr 0
         | Inr (Some coinbase_tx) \<Rightarrow>
             if is_coinbase_tx coinbase_tx = 0 then Inr 0
             else
               (case for_each [0..<unat (transaction_count block)] (first_tx_body p block) of
                  Inl f \<Rightarrow> Inl f
                | Inr (Some r) \<Rightarrow> Inr r
                | Inr None \<Rightarrow>
                    (case get_block_header_size p block of
                       Inl f \<Rightarrow> Inl f
                     | Inr block_header_size \<Rightarrow>
                         if block_header_size > MAX_BLOCK_SIZE p then Inr 0
                         else if valid_block_hash p block = 0 then Inr 0
                         else
                           (case valid_merkle_root p block of
                              Inl f \<Rightarrow> Inl f
                            | Inr r \<Rightarrow> if r = 0 then Inr 0 else Inr 1)))))"

text \<open>\<^verbatim>\<open>validate_block_signatures\<close>: the body of its loop, then the function.\<close>

definition signatures_body :: "params \<Rightarrow> block_t \<Rightarrow> nat \<Rightarrow> fault + int option" where
  "signatures_body p block tx_index =
     (case array_read (transactions block) tx_index of
        Inl f \<Rightarrow> Inl f
      | Inr None \<Rightarrow> Inl Assert_failed
      | Inr (Some tx) \<Rightarrow> if validate_tx_signatures p tx \<noteq> 0 then Inr (Some 1) else Inr None)"

definition validate_block_signatures :: "params \<Rightarrow> block_t \<Rightarrow> fault + int" where
  "validate_block_signatures p block =
     (case for_each [0..<unat (transaction_count block)] (signatures_body p block) of
        Inl f \<Rightarrow> Inl f
      | Inr (Some r) \<Rightarrow> Inr r
      | Inr None \<Rightarrow> Inr 0)"

section \<open>Comparing and copying blocks (block.c)\<close>

definition compare_block :: "params \<Rightarrow> block_t \<Rightarrow> block_t \<Rightarrow> fault + int" where
  "compare_block p block other_block =
     (let result =
            (version block = version other_block
             \<and> compare_hash (previous_hash block) (previous_hash other_block) \<noteq> 0
             \<and> compare_hash (hash block) (hash other_block) \<noteq> 0
             \<and> timestamp block = timestamp other_block
             \<and> nonce block = nonce other_block
             \<and> bits block = bits other_block
             \<and> cumulative_emission block = cumulative_emission other_block
             \<and> compare_hash (merkle_root block) (merkle_root other_block) \<noteq> 0
             \<and> transaction_count block = transaction_count other_block)
      in if \<not> result then Inr 0
         else
           (case for_each [0..<unat (transaction_count block)]
                   (\<lambda>tx_index.
                      case array_read (transactions block) tx_index of
                        Inl f \<Rightarrow> Inl f
                      | Inr None \<Rightarrow> Inl Assert_failed
                      | Inr (Some tx) \<Rightarrow>
                          (case array_read (transactions other_block) tx_index of
                             Inl f \<Rightarrow> Inl f
                           | Inr None \<Rightarrow> Inl Assert_failed
                           | Inr (Some other_transaction) \<Rightarrow>
                               if compare_transaction p tx other_transaction = 0
                               then Inr (Some 0) else Inr None)) of
              Inl f \<Rightarrow> Inl f
            | Inr (Some r) \<Rightarrow> Inr r
            | Inr None \<Rightarrow> Inr 1))"


text \<open>
  \<^verbatim>\<open>free_block_transactions\<close>: the block as the call leaves it, or the fault of
  reading a transaction that is not there.
\<close>

definition free_block_transactions :: "block_t \<Rightarrow> fault + block_t" where
  "free_block_transactions block =
     (if transaction_count block > 0 \<and> transactions block \<noteq> None then
        (case for_each [0..<unat (transaction_count block)]
                (\<lambda>i. case array_read (transactions block) i of
                        Inl f \<Rightarrow> Inl f
                      | Inr None \<Rightarrow> Inl Assert_failed
                      | Inr (Some tx) \<Rightarrow> Inr None) of
           Inl f \<Rightarrow> Inl f
         | Inr _ \<Rightarrow> Inr (block\<lparr>transaction_count := 0, transactions := None\<rparr>))
      else Inr block)"

text \<open>
  The loop of \<^verbatim>\<open>copy_block_transactions\<close>. \<^verbatim>\<open>other_tx\<close> is a local pointer set to
  null; \<^verbatim>\<open>copy_transaction(tx, other_tx)\<close> receives its value, so the local is null
  still when the assertion reads it. The result is the return code with the receiving
  block.
\<close>

fun copy_block_transactions_loop ::
    "params \<Rightarrow> block_t \<Rightarrow> nat list \<Rightarrow> block_t \<Rightarrow> fault + (int \<times> block_t)" where
  "copy_block_transactions_loop p block [] other_block = Inr (0, other_block)"
| "copy_block_transactions_loop p block (i # is) other_block =
     (case array_read (transactions block) i of
        Inl f \<Rightarrow> Inl f
      | Inr None \<Rightarrow> Inl Assert_failed
      | Inr (Some tx) \<Rightarrow>
          (let other_tx = None in
           case copy_transaction p tx other_tx of
             Inl f \<Rightarrow> Inl f
           | Inr r \<Rightarrow>
               if r \<noteq> 0 then Inr (1, other_block)
               else
                 (case other_tx of
                    None \<Rightarrow> Inl Assert_failed
                  | Some t \<Rightarrow>
                      (let n = unat (transaction_count block);
                           old = (case transactions other_block of None \<Rightarrow> [] | Some xs \<Rightarrow> xs);
                           arr = take n (old @ replicate n None)
                       in if i < length arr
                          then copy_block_transactions_loop p block is
                                 (other_block\<lparr>transaction_count := transaction_count other_block + 1,
                                               transactions := Some (arr[i := Some t])\<rparr>)
                          else Inl Out_of_bounds))))"

definition copy_block_transactions :: "params \<Rightarrow> block_t \<Rightarrow> block_t \<Rightarrow> fault + (int \<times> block_t)" where
  "copy_block_transactions p block other_block =
     (case free_block_transactions other_block of
        Inl f \<Rightarrow> Inl f
      | Inr other_block \<Rightarrow>
          if transaction_count block > 0 \<and> transactions block \<noteq> None
          then copy_block_transactions_loop p block [0..<unat (transaction_count block)] other_block
          else Inr (0, other_block))"

definition copy_block :: "params \<Rightarrow> block_t \<Rightarrow> block_t \<Rightarrow> fault + (int \<times> block_t)" where
  "copy_block p block other_block =
     (let other_block = other_block
            \<lparr>version := version block,
             previous_hash := previous_hash block,
             hash := hash block,
             timestamp := timestamp block,
             nonce := nonce block,
             bits := bits block,
             cumulative_emission := cumulative_emission block,
             merkle_root := merkle_root block,
             transaction_count := transaction_count block\<rparr>
      in case copy_block_transactions p block other_block of
           Inl f \<Rightarrow> Inl f
         | Inr (r, other_block) \<Rightarrow>
             if r \<noteq> 0 then Inr (1, other_block)
             else
               (case compare_block p block other_block of
                  Inl f \<Rightarrow> Inl f
                | Inr c \<Rightarrow> if c = 0 then Inr (1, other_block) else Inr (0, other_block)))"

section \<open>Signature bytes\<close>

text \<open>
  Changing nothing but the signature bytes of one input: input \<open>k\<close> of a transaction gets
  the signature \<open>sg\<close>; in a block, input \<open>k\<close> of transaction \<open>i\<close> does.
\<close>

definition tamper_tx :: "nat \<Rightarrow> bytes \<Rightarrow> transaction_t \<Rightarrow> transaction_t" where
  "tamper_tx k sg tx =
     tx\<lparr>txins := (txins tx)[k := map_option (\<lambda>txin. txin\<lparr>signature := sg\<rparr>) (txins tx ! k)]\<rparr>"

definition tamper_block :: "nat \<Rightarrow> nat \<Rightarrow> bytes \<Rightarrow> block_t \<Rightarrow> block_t" where
  "tamper_block i k sg block =
     block\<lparr>transactions :=
       map_option (\<lambda>txs. txs[i := map_option (tamper_tx k sg) (txs ! i)]) (transactions block)\<rparr>"

text \<open>
  Two transactions that differ in signature bytes at most, and two such transactions on
  which \<^verbatim>\<open>valid_transaction\<close> gives the same verdict.
\<close>

definition erase_signature :: "input_transaction \<Rightarrow> input_transaction" where
  "erase_signature txin = txin\<lparr>signature := []\<rparr>"

definition same_but_signatures :: "transaction_t \<Rightarrow> transaction_t \<Rightarrow> bool" where
  "same_but_signatures tx tx' \<longleftrightarrow>
     id_tx tx = id_tx tx' \<and> txin_count tx = txin_count tx' \<and> txout_count tx = txout_count tx'
     \<and> txouts tx = txouts tx'
     \<and> map (map_option erase_signature) (txins tx) = map (map_option erase_signature) (txins tx')"

definition same_verdict :: "params \<Rightarrow> transaction_t \<Rightarrow> transaction_t \<Rightarrow> bool" where
  "same_verdict p tx tx' \<longleftrightarrow>
     same_but_signatures tx tx' \<and> valid_transaction p tx = valid_transaction p tx'"

section \<open>Concrete parameters and blocks\<close>

text \<open>
  Stand-ins on which the definitions can be run: a hash that keeps the first 32 bytes of
  its input (padded with zeros), a signature check that accepts a signature starting
  with the public key, a proof-of-work check that accepts everything.
\<close>

definition example_params :: params where
  "example_params =
     \<lparr>get_current_time = 1600000000,
      MAX_FUTURE_BLOCK_TIME = 7200,
      MAX_BLOCK_SIZE = 1000000,
      BLOCK_HEADER_SIZE = 88,
      BLOCK_VERSION = 1,
      ADDRESS_SIZE = 33,
      crypto_hash_sha256d = (\<lambda>bs. take 32 (bs @ replicate 32 0)),
      crypto_sign_verify_detached = (\<lambda>sg msg pk. take 32 sg = pk),
      check_proof_of_work = (\<lambda>h b. 1),
      buffer_storage = (\<lambda>k. 0),
      validate_tx_signatures = (\<lambda>tx. 0),
      compare_transaction = (\<lambda>tx other. if tx = other then 1 else 0),
      copy_transaction = (\<lambda>tx other. Inr 0)\<rparr>"

text \<open>
  The same with \<^verbatim>\<open>BLOCK_HEADER_SIZE\<close> at 92 and a hash that, as SHA-256 does, takes
  the length of its input into account.
\<close>

definition example_params_92 :: params where
  "example_params_92 =
     example_params
       \<lparr>BLOCK_HEADER_SIZE := 92,
        crypto_hash_sha256d := (\<lambda>bs. word_of_nat (length bs) # take 31 (bs @ replicate 31 0))\<rparr>"

text \<open>
  A block of two transactions that \<^verbatim>\<open>valid_block\<close> accepts under these parameters: a
  coinbase and a transaction with two inputs.
\<close>

definition example_coinbase :: transaction_t where
  "example_coinbase =
     \<lparr>id_tx = replicate 32 0,
      txin_count = 1,
      txout_count = 1,
      txins = [Some \<lparr>transaction = replicate 32 0, txout_index = 0xFFFFFFFF,
                     signature = replicate 64 0, public_key = replicate 32 0\<rparr>],
      txouts = [Some \<lparr>amount = 50, address = replicate 33 7\<rparr>]\<rparr>"

definition example_spend :: transaction_t where
  "example_spend =
     \<lparr>id_tx = replicate 32 0xAA,
      txin_count = 2,
      txout_count = 1,
      txins = [Some \<lparr>transaction = replicate 32 0xAA, txout_index = 0,
                     signature = replicate 64 5, public_key = replicate 32 5\<rparr>,
               Some \<lparr>transaction = replicate 32 0xAA, txout_index = 1,
                     signature = replicate 64 6, public_key = replicate 32 6\<rparr>],
      txouts = [Some \<lparr>amount = 10, address = replicate 33 7\<rparr>]\<rparr>"

definition example_block :: block_t where
  "example_block =
     \<lparr>version = 1,
      previous_hash = replicate 32 0,
      hash = 1 # replicate 31 0,
      timestamp = 0,
      nonce = 0,
      bits = 0,
      cumulative_emission = 0,
      merkle_root = replicate 32 0,
      transaction_count = 2,
      transactions = Some [Some example_coinbase, Some example_spend]\<rparr>"

section \<open>The Merkle root\<close>

lemma filter_even_upt:
  "filter even [0..<Suc (Suc m)] = 0 # map (\<lambda>i. i + 2) (filter even [0..<m])"
  by (induction m) auto

lemma collapse_merkle_nodes_pair_up:
  "nodes \<noteq> [] \<Longrightarrow> collapse_merkle_nodes p nodes = Inr (pair_up p nodes)"
proof (induction p nodes rule: pair_up.induct)
  case (1 p l r nodes)
  show ?case
  proof (cases nodes)
    case Nil
    then show ?thesis
      by (simp add: collapse_merkle_nodes_def)
  next
    case (Cons n ns)
    let ?k = "length nodes"
    let ?f = "\<lambda>i. construct_merkle_node p ((l # r # nodes) ! i) ((l # r # nodes) ! (i + 1))"
    let ?g = "\<lambda>i. construct_merkle_node p (nodes ! i) (nodes ! (i + 1))"
    from Cons have k: "?k = Suc (?k - 1)"
      by simp
    from Cons 1 have IH: "collapse_merkle_nodes p nodes = Inr (pair_up p nodes)"
      by simp
    have "length (l # r # nodes) - 1 = Suc (Suc (?k - 1))"
      using k by simp
    then have "filter even [0..<length (l # r # nodes) - 1]
        = 0 # map (\<lambda>i. i + 2) (filter even [0..<?k - 1])"
      by (simp only: filter_even_upt)
    then have front: "map ?f (filter even [0..<length (l # r # nodes) - 1])
        = construct_merkle_node p l r # map ?g (filter even [0..<?k - 1])"
      by (simp add: o_def)
    have final: "(l # r # nodes) ! (length (l # r # nodes) - 1) = nodes ! (?k - 1)"
      using k by (metis One_nat_def diff_Suc_1 length_Cons nth_Cons_Suc)
    have parity: "length (l # r # nodes) mod 2 = ?k mod 2"
      by simp
    from Cons have ne: "?k \<noteq> 0"
      by simp
    from IH ne have old: "(if ?k mod 2 \<noteq> 0
          then map ?g (filter even [0..<?k - 1])
                 @ [construct_merkle_node p (nodes ! (?k - 1)) (nodes ! (?k - 1))]
          else map ?g (filter even [0..<?k - 1])) = pair_up p nodes"
      by (auto simp add: collapse_merkle_nodes_def Let_def simp del: upt_Suc split: if_splits)
    have "collapse_merkle_nodes p (l # r # nodes) =
        Inr (if ?k mod 2 \<noteq> 0
          then (construct_merkle_node p l r # map ?g (filter even [0..<?k - 1]))
                 @ [construct_merkle_node p (nodes ! (?k - 1)) (nodes ! (?k - 1))]
          else construct_merkle_node p l r # map ?g (filter even [0..<?k - 1]))"
      unfolding collapse_merkle_nodes_def Let_def front final parity
      by simp
    also have "\<dots> = Inr (construct_merkle_node p l r # pair_up p nodes)"
      using old by (simp split: if_splits)
    finally show ?thesis
      by simp
  qed
next
  case (2 p n)
  then show ?case
    by (simp add: collapse_merkle_nodes_def)
next
  case (3 p)
  then show ?case by simp
qed

lemma pair_up_Nil_iff: "pair_up p nodes = [] \<longleftrightarrow> nodes = []"
  by (induction p nodes rule: pair_up.induct) simp_all

lemma pair_up_odd_last:
  "odd (length nodes) \<Longrightarrow>
     last (pair_up p nodes) = construct_merkle_node p (last nodes) (last nodes)"
proof (induction p nodes rule: pair_up.induct)
  case (1 p l r nodes)
  then show ?case
    by (cases nodes) (simp_all add: pair_up_Nil_iff)
qed simp_all

lemma merkle_leaves_of_three:
  assumes "length a = HASH_SIZE" "length b = HASH_SIZE" "length c = HASH_SIZE"
  shows "construct_merkle_leaves_from_hashes (a @ b @ c) 3 =
     Inr [Merkle_node a None None, Merkle_node b None None, Merkle_node c None None]"
proof -
  have idx: "[0..<3] = [0, Suc 0, 2 :: nat]"
    by (simp add: upt_conv_Cons)
  show ?thesis
    using assms by (simp add: construct_merkle_leaves_from_hashes_def idx HASH_SIZE_def)
qed

lemma merkle_leaves_of_one:
  assumes "length a = HASH_SIZE"
  shows "construct_merkle_leaves_from_hashes a 1 = Inr [Merkle_node a None None]"
  using assms by (simp add: construct_merkle_leaves_from_hashes_def HASH_SIZE_def)

text \<open>
  C5: for three txids \<open>a\<close>, \<open>b\<close>, \<open>c\<close> the tree built over \<open>[a, b, c]\<close> has the root
  hash \<open>H (H (a \<parallel> b) \<parallel> H (c \<parallel> c))\<close> with \<open>H\<close> the double SHA-256; and on every level
  with an odd number of nodes the last parent is built from the last node taken as both
  children, so that its hash is \<open>H\<close> of that node's hash written twice.
\<close>

theorem merkle_root_of_three:
  assumes "length a = HASH_SIZE" "length b = HASH_SIZE" "length c = HASH_SIZE"
  shows "(\<exists>tree. construct_merkle_tree_from_leaves p (a @ b @ c) 3 = Inr (Some tree) \<and>
            node_hash (root tree) =
              crypto_hash_sha256d p (crypto_hash_sha256d p (a @ b) @ crypto_hash_sha256d p (c @ c)))
         \<and> (odd (length nodes) \<longrightarrow>
               (\<exists>parents. collapse_merkle_nodes p nodes = Inr parents \<and>
                  node_hash (last parents) =
                    crypto_hash_sha256d p (node_hash (last nodes) @ node_hash (last nodes))))"
proof (intro conjI impI)
  show "\<exists>tree. construct_merkle_tree_from_leaves p (a @ b @ c) 3 = Inr (Some tree) \<and>
            node_hash (root tree) =
              crypto_hash_sha256d p (crypto_hash_sha256d p (a @ b) @ crypto_hash_sha256d p (c @ c))"
    using merkle_leaves_of_three [OF assms]
    by (simp add: construct_merkle_tree_from_leaves_def collapse_merkle_nodes_pair_up
        construct_merkle_node_def)
next
  assume odd: "odd (length nodes)"
  then have "nodes \<noteq> []"
    by auto
  then have "collapse_merkle_nodes p nodes = Inr (pair_up p nodes)"
    by (rule collapse_merkle_nodes_pair_up)
  moreover from odd have "node_hash (last (pair_up p nodes)) =
      crypto_hash_sha256d p (node_hash (last nodes) @ node_hash (last nodes))"
    by (simp add: pair_up_odd_last construct_merkle_node_def)
  ultimately show "\<exists>parents. collapse_merkle_nodes p nodes = Inr parents \<and>
      node_hash (last parents) =
        crypto_hash_sha256d p (node_hash (last nodes) @ node_hash (last nodes))"
    by simp
qed

theorem merkle_root_of_three_witness:
  "length (replicate 32 (1 :: byte)) = HASH_SIZE
   \<and> length (replicate 32 (2 :: byte)) = HASH_SIZE
   \<and> length (replicate 32 (3 :: byte)) = HASH_SIZE
   \<and> odd (length [Merkle_node (replicate 32 3) None None])
   \<and> (\<exists>tree. construct_merkle_tree_from_leaves example_params
                 (replicate 32 1 @ replicate 32 2 @ replicate 32 3) 3 = Inr (Some tree)
        \<and> node_hash (root tree) = replicate 32 1)
   \<and> (\<exists>parents. collapse_merkle_nodes example_params [Merkle_node (replicate 32 3) None None]
                    = Inr parents
        \<and> node_hash (last parents) = replicate 32 3)"
  using merkle_root_of_three [where a = "replicate 32 1" and b = "replicate 32 2"
      and c = "replicate 32 3" and p = example_params
      and nodes = "[Merkle_node (replicate 32 3) None None]"]
  by (simp add: HASH_SIZE_def example_params_def)

text \<open>
  C6: for a single txid the tree has that txid as its root hash: the one leaf holds the
  txid as it is, with no children, and the collapsing loop does not run.
\<close>

theorem merkle_root_of_one:
  assumes "length txid = HASH_SIZE"
  shows "construct_merkle_leaves_from_hashes txid 1 = Inr [Merkle_node txid None None]
         \<and> construct_merkle_tree_from_leaves p txid 1 =
             Inr (Some (Merkle_tree (Merkle_node txid None None)))"
  using merkle_leaves_of_one [OF assms]
  by (simp add: construct_merkle_tree_from_leaves_def)

theorem merkle_root_of_one_witness:
  "length (replicate 32 (1 :: byte)) = HASH_SIZE
   \<and> construct_merkle_tree_from_leaves example_params (replicate 32 1) 1 =
       Inr (Some (Merkle_tree (Merkle_node (replicate 32 1) None None)))"
  using merkle_root_of_one [where txid = "replicate 32 1" and p = example_params]
  by (simp add: HASH_SIZE_def)

section \<open>The timestamp bound\<close>

lemma unat_future_bound:
  "unat (get_current_time p + MAX_FUTURE_BLOCK_TIME p) =
     (unat (get_current_time p) + unat (MAX_FUTURE_BLOCK_TIME p)) mod 2 ^ 32"
  by (simp add: unat_word_ariths)

text \<open>
  C8: a block whose timestamp is the current time plus \<^verbatim>\<open>MAX_FUTURE_BLOCK_TIME\<close> passes
  \<^verbatim>\<open>valid_block_timestamp\<close>, and a block whose timestamp is one second later does not:
  the bound is compared with \<open>\<le>\<close>.
\<close>

theorem valid_block_timestamp_boundary:
  "(unat (timestamp b) = unat (get_current_time p) + unat (MAX_FUTURE_BLOCK_TIME p)
      \<longrightarrow> valid_block_timestamp p b = 1)
   \<and> (unat (timestamp b') = unat (get_current_time p) + unat (MAX_FUTURE_BLOCK_TIME p) + 1
      \<longrightarrow> valid_block_timestamp p b' = 0)"
proof (intro conjI impI)
  assume eq: "unat (timestamp b) = unat (get_current_time p) + unat (MAX_FUTURE_BLOCK_TIME p)"
  have "unat (timestamp b) < 2 ^ 32"
    using unsigned_less [of "timestamp b"] by simp
  with eq have "unat (get_current_time p + MAX_FUTURE_BLOCK_TIME p) = unat (timestamp b)"
    by (simp add: unat_future_bound)
  then show "valid_block_timestamp p b = 1"
    by (simp add: valid_block_timestamp_def word_le_nat_alt)
next
  assume eq: "unat (timestamp b') = unat (get_current_time p) + unat (MAX_FUTURE_BLOCK_TIME p) + 1"
  have "unat (timestamp b') < 2 ^ 32"
    using unsigned_less [of "timestamp b'"] by simp
  with eq have "unat (get_current_time p + MAX_FUTURE_BLOCK_TIME p) < unat (timestamp b')"
    by (simp add: unat_future_bound)
  then show "valid_block_timestamp p b' = 0"
    by (simp add: valid_block_timestamp_def word_le_nat_alt)
qed

theorem valid_block_timestamp_boundary_witness:
  "unat (timestamp ((make_block example_params)\<lparr>timestamp := 1600007200\<rparr>))
     = unat (get_current_time example_params) + unat (MAX_FUTURE_BLOCK_TIME example_params)
   \<and> valid_block_timestamp example_params ((make_block example_params)\<lparr>timestamp := 1600007200\<rparr>) = 1
   \<and> unat (timestamp ((make_block example_params)\<lparr>timestamp := 1600007201\<rparr>))
     = unat (get_current_time example_params) + unat (MAX_FUTURE_BLOCK_TIME example_params) + 1
   \<and> valid_block_timestamp example_params ((make_block example_params)\<lparr>timestamp := 1600007201\<rparr>) = 0"
  using valid_block_timestamp_boundary
    [where b = "(make_block example_params)\<lparr>timestamp := 1600007200\<rparr>"
       and p = example_params
       and b' = "(make_block example_params)\<lparr>timestamp := 1600007201\<rparr>"]
  by (simp add: example_params_def make_block_def)

section \<open>The header bytes and the block hash\<close>

lemma length_le_bytes [simp]: "length (le_bytes n w) = n"
  by (induction n arbitrary: w) simp_all

lemma le_word_le_bytes: "le_word (le_bytes n w) = take_bit (8 * n) w"
proof (induction n arbitrary: w)
  case 0
  then show ?case by simp
next
  case (Suc n)
  show ?case
    unfolding le_bytes.simps le_word.simps Suc
    by (rule bit_word_eqI) (auto simp add: bit_simps)
qed

lemma le_word_le_bytes_u32 [simp]: "le_word (le_bytes 4 (w :: u32)) = w"
  by (simp add: le_word_le_bytes take_bit_word_eq_self)

lemma le_word_le_bytes_u64 [simp]: "le_word (le_bytes 8 (w :: u64)) = w"
  by (simp add: le_word_le_bytes take_bit_word_eq_self)

lemma serialize_block_header_bytes:
  "serialize_block_header buf b =
     (0, buf @ le_bytes 4 (version b) @ le_bytes 4 (timestamp b) @ le_bytes 4 (nonce b)
           @ le_bytes 4 (bits b) @ le_bytes 8 (cumulative_emission b)
           @ take HASH_SIZE (previous_hash b) @ take HASH_SIZE (merkle_root b))"
  by (simp add: serialize_block_header_def or_else_def buffer_write_uint32_def
      buffer_write_uint64_def buffer_write_def)

lemma storage_copy:
  "map (\<lambda>k. if k < length buf then buf ! k else g k) [0..<n] = take n buf @ map g [length buf..<n]"
  by (rule nth_equalityI) (auto simp add: nth_append min_def)

lemma compute_block_hash_eq:
  "compute_block_hash p b =
     Some (crypto_hash_sha256d p
        (take (BLOCK_HEADER_SIZE p) (snd (serialize_block_header [] b))
         @ map (buffer_storage p) [length (snd (serialize_block_header [] b))..<BLOCK_HEADER_SIZE p]))"
  by (simp add: compute_block_hash_def serialize_block_header_bytes storage_copy)


lemma example_block_hash: "compute_block_hash example_params example_block = Some (hash example_block)"
  unfolding compute_block_hash_eq serialize_block_header_bytes
  by (simp add: example_block_def example_params_def HASH_SIZE_def eval_nat_numeral)

text \<open>
  C2, as the code has it: for a block whose hash fields hold 32 bytes,
  \<^verbatim>\<open>serialize_block_header\<close> reports 0 and writes version, timestamp, nonce, bits
  (4 bytes each, little endian), cumulative_emission (8 bytes, little endian),
  previous_hash and merkle_root (32 bytes each) in that order, which makes 88 bytes.
\<close>

theorem serialize_block_header_layout:
  assumes "length (previous_hash block) = HASH_SIZE" and "length (merkle_root block) = HASH_SIZE"
  shows "serialize_block_header [] block =
           (0, le_bytes 4 (version block) @ le_bytes 4 (timestamp block) @ le_bytes 4 (nonce block)
               @ le_bytes 4 (bits block) @ le_bytes 8 (cumulative_emission block)
               @ previous_hash block @ merkle_root block)
         \<and> length (snd (serialize_block_header [] block)) = 88"
  using assms
  by (simp add: serialize_block_header_bytes HASH_SIZE_def)

theorem serialize_block_header_layout_witness:
  "length (previous_hash example_block) = HASH_SIZE
   \<and> length (merkle_root example_block) = HASH_SIZE
   \<and> serialize_block_header [] example_block =
        (0, [1, 0, 0, 0] @ replicate 20 0 @ replicate 32 0 @ replicate 32 0)
   \<and> length (snd (serialize_block_header [] example_block)) = 88"
  using serialize_block_header_layout [where block = example_block]
  by (simp add: example_block_def HASH_SIZE_def eval_nat_numeral)

text \<open>
  C2 as stated fails at the example block. Its header bytes are 88, not 92. And with
  \<^verbatim>\<open>BLOCK_HEADER_SIZE\<close> at 92, \<^verbatim>\<open>compute_block_hash\<close> copies 92 bytes out of the buffer:
  the 88 header bytes and four bytes of the buffer's storage that
  \<^verbatim>\<open>serialize_block_header\<close> never wrote; the hash of these 92 bytes is not the hash of
  the header bytes.
\<close>

theorem serialize_block_header_not_92:
  "length (snd (serialize_block_header [] example_block)) = 88
   \<and> length (snd (serialize_block_header [] example_block)) \<noteq> 92
   \<and> BLOCK_HEADER_SIZE example_params_92 = 92
   \<and> compute_block_hash example_params_92 example_block =
        Some (crypto_hash_sha256d example_params_92
          (snd (serialize_block_header [] example_block) @ [0, 0, 0, 0]))
   \<and> compute_block_hash example_params_92 example_block \<noteq>
        Some (crypto_hash_sha256d example_params_92 (snd (serialize_block_header [] example_block)))"
proof -
  have len: "length (snd (serialize_block_header [] example_block)) = 88"
    by (simp add: serialize_block_header_bytes example_block_def HASH_SIZE_def)
  have size: "BLOCK_HEADER_SIZE example_params_92 = 92"
    by (simp add: example_params_92_def)
  have storage: "map (buffer_storage example_params_92) [88..<92] = [0, 0, 0, 0]"
    by (simp add: example_params_92_def example_params_def upt_rec [of 88] upt_rec [of 89]
        upt_rec [of 90] upt_rec [of 91])
  have eq: "compute_block_hash example_params_92 example_block =
      Some (crypto_hash_sha256d example_params_92
        (snd (serialize_block_header [] example_block) @ [0, 0, 0, 0]))"
    unfolding compute_block_hash_eq len size storage
    using len by simp
  have "crypto_hash_sha256d example_params_92
        (snd (serialize_block_header [] example_block) @ [0, 0, 0, 0])
      \<noteq> crypto_hash_sha256d example_params_92 (snd (serialize_block_header [] example_block))"
    by (simp add: example_params_92_def len)
  with len size eq show ?thesis
    by simp
qed

section \<open>Serializing a block and reading it back\<close>

lemma serialize_block_bytes:
  "serialize_block buf b =
     (0, buf @ le_bytes 4 (version b)
           @ le_bytes 4 (word_of_nat HASH_SIZE :: u32) @ take HASH_SIZE (previous_hash b)
           @ le_bytes 4 (word_of_nat HASH_SIZE :: u32) @ take HASH_SIZE (hash b)
           @ le_bytes 4 (timestamp b) @ le_bytes 4 (nonce b) @ le_bytes 4 (bits b)
           @ le_bytes 8 (cumulative_emission b)
           @ le_bytes 4 (word_of_nat HASH_SIZE :: u32) @ take HASH_SIZE (merkle_root b)
           @ le_bytes 4 (transaction_count b))"
  by (simp add: serialize_block_def or_else_def buffer_write_uint32_def
      buffer_write_uint64_def buffer_write_bytes32_def)

lemma block_from_serialized_block:
  assumes "length (previous_hash b) = HASH_SIZE" "length (hash b) = HASH_SIZE"
    "length (merkle_root b) = HASH_SIZE"
  shows "block_from_serialized p (snd (serialize_block [] b)) (length (snd (serialize_block [] b)))
     = Inr (Some (b\<lparr>transactions := None\<rparr>))"
  using assms
  by (simp add: block_from_serialized_def serialize_block_bytes deserialize_block_def
      on_read_def on_copy_def buffer_iterator_init_def buffer_read_uint32_def
      buffer_read_bytes32_def buffer_read_uint64_def buffer_read_def memcpy_hash_def
      HASH_SIZE_def make_block_def Let_def)

lemma serialized_round_trip_eq:
  assumes "length (previous_hash b) = HASH_SIZE" "length (hash b) = HASH_SIZE"
    "length (merkle_root b) = HASH_SIZE"
  shows "serialized_round_trip p b = Inr (Some (b\<lparr>transactions := None\<rparr>))"
  using block_from_serialized_block [OF assms, of p]
  by (simp add: serialized_round_trip_def block_to_serialized_def serialize_block_bytes)

text \<open>
  C1, as the code has it: for a block whose hash fields hold 32 bytes,
  \<^verbatim>\<open>block_to_serialized\<close> writes the nine fields version, previous_hash, hash, timestamp,
  nonce, bits, cumulative_emission, merkle_root and transaction_count and no transaction,
  and \<^verbatim>\<open>block_from_serialized\<close> of these bytes gives a block with the same nine fields
  whose \<^verbatim>\<open>transactions\<close> pointer is null.
\<close>

theorem block_serialized_round_trip_fields:
  assumes "length (previous_hash block) = HASH_SIZE" and "length (hash block) = HASH_SIZE"
    and "length (merkle_root block) = HASH_SIZE"
  shows "block_to_serialized block =
           (0, Some (le_bytes 4 (version block)
              @ le_bytes 4 (32 :: u32) @ previous_hash block
              @ le_bytes 4 (32 :: u32) @ hash block
              @ le_bytes 4 (timestamp block) @ le_bytes 4 (nonce block) @ le_bytes 4 (bits block)
              @ le_bytes 8 (cumulative_emission block)
              @ le_bytes 4 (32 :: u32) @ merkle_root block
              @ le_bytes 4 (transaction_count block)))
         \<and> serialized_round_trip p block = Inr (Some (block\<lparr>transactions := None\<rparr>))"
  using assms serialized_round_trip_eq [OF assms, of p]
  by (simp add: block_to_serialized_def serialize_block_bytes HASH_SIZE_def)

theorem block_serialized_round_trip_fields_witness:
  "length (previous_hash example_block) = HASH_SIZE
   \<and> length (hash example_block) = HASH_SIZE
   \<and> length (merkle_root example_block) = HASH_SIZE
   \<and> serialized_round_trip example_params example_block =
        Inr (Some (example_block\<lparr>transactions := None\<rparr>))"
  using block_serialized_round_trip_fields [where block = example_block and p = example_params]
  by (simp add: example_block_def HASH_SIZE_def)

text \<open>
  C1 as stated fails on the transactions: the example block has two, the block that comes
  back has the count 2 and no transaction array, so it is not the block that went in, and
  \<^verbatim>\<open>compare_block\<close> of the two reads through the null pointer.
\<close>

theorem block_serialized_round_trip_drops_transactions:
  "serialized_round_trip example_params example_block \<noteq> Inr (Some example_block)
   \<and> serialized_round_trip example_params example_block =
        Inr (Some (example_block\<lparr>transactions := None\<rparr>))
   \<and> compare_block example_params example_block (example_block\<lparr>transactions := None\<rparr>)
        = Inl Null_deref"
proof -
  have len: "length (previous_hash example_block) = HASH_SIZE"
    "length (hash example_block) = HASH_SIZE" "length (merkle_root example_block) = HASH_SIZE"
    by (simp_all add: example_block_def HASH_SIZE_def)
  have rt: "serialized_round_trip example_params example_block =
      Inr (Some (example_block\<lparr>transactions := None\<rparr>))"
    by (rule serialized_round_trip_eq [OF len])
  have differ: "example_block\<lparr>transactions := None\<rparr> \<noteq> example_block"
    by (simp add: example_block_def)
  have upt2: "[0..<2] = [0, Suc 0]"
    by (simp add: upt_conv_Cons)
  have cmp: "compare_block example_params example_block (example_block\<lparr>transactions := None\<rparr>)
      = Inl Null_deref"
    by (simp add: compare_block_def compare_hash_def example_block_def upt2 array_read_def)
  from rt differ cmp show ?thesis
    by simp
qed

section \<open>Comparing with the genesis block\<close>



section \<open>Copying a block\<close>

lemma upt_first: "0 < n \<Longrightarrow> [0..<n] = 0 # [Suc 0..<n]"
  by (simp add: upt_conv_Cons)

lemma copy_block_transactions_loop_first:
  assumes "0 < n"
  shows "copy_block_transactions_loop p block [0..<n] other_block =
     (case array_read (transactions block) 0 of
        Inl f \<Rightarrow> Inl f
      | Inr None \<Rightarrow> Inl Assert_failed
      | Inr (Some tx) \<Rightarrow>
          (case copy_transaction p tx None of
             Inl f \<Rightarrow> Inl f
           | Inr r \<Rightarrow> if r \<noteq> 0 then Inr (1, other_block) else Inl Assert_failed))"
  by (simp add: upt_first [OF assms] split: sum.splits option.splits)

lemma copy_block_transactions_not_0:
  assumes "1 \<le> transaction_count block" and "transactions block \<noteq> None"
  shows "copy_block_transactions p block other_block \<noteq> Inr (0, other')"
proof -
  from assms(1) have "0 < unat (transaction_count block)"
    by (simp add: word_le_nat_alt)
  then show ?thesis
    using assms
    by (auto simp add: copy_block_transactions_def copy_block_transactions_loop_first
        word_less_nat_alt split: sum.splits option.splits)
qed

text \<open>
  C9: for a block with at least one transaction \<^verbatim>\<open>copy_block\<close> never returns 0. In the
  first round of the loop of \<^verbatim>\<open>copy_block_transactions\<close> the local \<^verbatim>\<open>other_tx\<close> is null
  after \<^verbatim>\<open>copy_transaction\<close> has returned, whatever that call did, so the assertion on it
  fails as soon as \<^verbatim>\<open>copy_transaction\<close> returns 0.
\<close>

theorem copy_block_never_succeeds:
  assumes "1 \<le> transaction_count block" and "transactions block \<noteq> None"
  shows "copy_block p block other_block \<noteq> Inr (0, other')
     \<and> (free_block_transactions other_block = Inr freed
          \<and> array_read (transactions block) 0 = Inr (Some tx)
          \<and> copy_transaction p tx None = Inr 0
        \<longrightarrow> copy_block_transactions p block other_block = Inl Assert_failed)
     \<and> (transactions other_block = None
          \<and> array_read (transactions block) 0 = Inr (Some tx)
          \<and> copy_transaction p tx None = Inr 0
        \<longrightarrow> copy_block p block other_block = Inl Assert_failed)"
proof (intro conjI impI)
  show "copy_block p block other_block \<noteq> Inr (0, other')"
    using copy_block_transactions_not_0 [OF assms]
    by (auto simp add: copy_block_def Let_def split: sum.splits prod.splits if_splits)
next
  from assms(1) have pos: "0 < unat (transaction_count block)"
    by (simp add: word_le_nat_alt)
  {
    assume "free_block_transactions other_block = Inr freed
          \<and> array_read (transactions block) 0 = Inr (Some tx)
          \<and> copy_transaction p tx None = Inr 0"
    then show "copy_block_transactions p block other_block = Inl Assert_failed"
      using assms pos
      by (simp add: copy_block_transactions_def copy_block_transactions_loop_first word_less_nat_alt)
  }
  {
    assume "transactions other_block = None
          \<and> array_read (transactions block) 0 = Inr (Some tx)
          \<and> copy_transaction p tx None = Inr 0"
    then show "copy_block p block other_block = Inl Assert_failed"
      using assms pos
      by (simp add: copy_block_def copy_block_transactions_def free_block_transactions_def
          copy_block_transactions_loop_first word_less_nat_alt)
  }
qed

theorem copy_block_never_succeeds_witness:
  "1 \<le> transaction_count example_block
   \<and> transactions example_block \<noteq> None
   \<and> transactions (make_block example_params) = None
   \<and> free_block_transactions (make_block example_params) = Inr (make_block example_params)
   \<and> array_read (transactions example_block) 0 = Inr (Some example_coinbase)
   \<and> copy_transaction example_params example_coinbase None = Inr 0
   \<and> copy_block_transactions example_params example_block (make_block example_params)
        = Inl Assert_failed
   \<and> copy_block example_params example_block (make_block example_params) = Inl Assert_failed"
  using copy_block_never_succeeds
    [where block = example_block and p = example_params
       and other_block = "make_block example_params" and tx = example_coinbase
       and freed = "make_block example_params"]
  by (simp add: example_block_def example_params_def make_block_def array_read_def
      free_block_transactions_def)

section \<open>The example block is accepted\<close>

lemma upt_2: "[0..<2] = [0, Suc 0]"
  by (simp add: upt_conv_Cons)

lemma example_spend_inputs:
  "tx_inputs example_spend =
     [\<lparr>transaction = replicate 32 0xAA, txout_index = 0,
        signature = replicate 64 5, public_key = replicate 32 5\<rparr>,
      \<lparr>transaction = replicate 32 0xAA, txout_index = 1,
        signature = replicate 64 6, public_key = replicate 32 6\<rparr>]"
  by (simp add: tx_inputs_def present_def example_spend_def)

lemma example_spend_outputs: "tx_outputs example_spend = [\<lparr>amount = 10, address = replicate 33 7\<rparr>]"
  by (simp add: tx_outputs_def present_def example_spend_def)

lemma example_spend_id: "compute_tx_id example_params example_spend = (0, replicate 32 0xAA)"
  by (simp add: compute_tx_id_def get_tx_sign_header_def example_spend_inputs
      example_spend_outputs example_params_def get_txin_header_def)

lemma example_spend_not_coinbase: "is_coinbase_tx example_spend = 0"
  by (simp add: is_coinbase_tx_def example_spend_def)

lemma example_spend_valid: "valid_transaction example_params example_spend = 1"
  unfolding valid_transaction_def example_spend_id example_spend_inputs example_spend_outputs
    example_spend_not_coinbase
  by (simp add: example_spend_def example_params_def)

lemma example_coinbase_inputs:
  "tx_inputs example_coinbase =
     [\<lparr>transaction = replicate 32 0, txout_index = 0xFFFFFFFF,
        signature = replicate 64 0, public_key = replicate 32 0\<rparr>]"
  by (simp add: tx_inputs_def present_def example_coinbase_def)

lemma example_coinbase_outputs:
  "tx_outputs example_coinbase = [\<lparr>amount = 50, address = replicate 33 7\<rparr>]"
  by (simp add: tx_outputs_def present_def example_coinbase_def)

lemma example_coinbase_id: "compute_tx_id example_params example_coinbase = (0, replicate 32 0)"
  by (simp add: compute_tx_id_def get_tx_sign_header_def example_coinbase_inputs
      example_coinbase_outputs example_params_def get_txin_header_def)

lemma example_coinbase_is_coinbase: "is_coinbase_tx example_coinbase = 1"
  by (simp add: is_coinbase_tx_def example_coinbase_def zero_tx_hash_def)

lemma example_coinbase_valid: "valid_transaction example_params example_coinbase = 1"
  unfolding valid_transaction_def example_coinbase_id example_coinbase_inputs
    example_coinbase_outputs example_coinbase_is_coinbase
  by (simp add: example_coinbase_def example_params_def)

lemma example_inputs_coinbase_spend:
  "for_each [0..<unat (txin_count example_coinbase)] (first_txin_body example_coinbase example_spend)
     = Inr None"
  by (simp add: example_coinbase_def example_spend_def first_txin_body_def second_txin_body_def
      array_read_def compare_hash_def upt_2)

lemma example_inputs_spend_coinbase:
  "for_each [0..<unat (txin_count example_spend)] (first_txin_body example_spend example_coinbase)
     = Inr None"
  by (simp add: example_coinbase_def example_spend_def first_txin_body_def second_txin_body_def
      array_read_def compare_hash_def upt_2)

lemma example_ids_differ:
  "id_tx example_coinbase \<noteq> id_tx example_spend" "id_tx example_spend \<noteq> id_tx example_coinbase"
  by (simp_all add: example_coinbase_def example_spend_def)

lemma example_block_loops:
  "for_each [0..<unat (transaction_count example_block)] (first_tx_body example_params example_block)
     = Inr None"
  by (simp add: example_block_def upt_2 first_tx_body_def array_read_def example_spend_valid
      example_coinbase_valid example_coinbase_is_coinbase example_spend_not_coinbase
      second_tx_body_def compare_hash_def example_inputs_coinbase_spend
      example_inputs_spend_coinbase example_ids_differ)

lemma example_block_size: "get_block_header_size example_params example_block = Inr 686"
  by (simp add: get_block_header_size_def example_block_def upt_2 array_read_def
      get_tx_header_size_def)
     (simp add: example_params_def example_coinbase_def example_spend_def)

lemma example_block_valid_hash: "valid_block_hash example_params example_block = 1"
  by (simp add: valid_block_hash_def example_block_hash compare_hash_def)
     (simp add: example_params_def)

lemma example_block_timestamp: "valid_block_timestamp example_params example_block = 1"
  by (simp add: valid_block_timestamp_def example_params_def example_block_def)

lemma example_block_root:
  "compute_merkle_root example_params example_block = Inr (Some (merkle_root example_block))"
  by (simp add: compute_merkle_root_def example_block_def upt_2 array_read_def example_spend_id
      example_coinbase_id construct_merkle_tree_from_leaves_def collapse_merkle_nodes_pair_up
      construct_merkle_leaves_from_hashes_def HASH_SIZE_def construct_merkle_node_def)
     (simp add: example_params_def)

lemma example_block_valid_root: "valid_merkle_root example_params example_block = Inr 1"
  by (simp add: valid_merkle_root_def example_block_root compare_hash_def)

lemma example_block_first:
  "array_read (transactions example_block) 0 = Inr (Some example_coinbase)"
  by (simp add: example_block_def array_read_def)

lemma example_block_valid: "valid_block example_params example_block = Inr 1"
  by (simp add: valid_block_def example_block_loops example_block_size example_block_timestamp
      example_block_valid_hash example_block_valid_root example_block_first
      example_coinbase_is_coinbase)
     (simp add: example_block_def example_params_def)

section \<open>What an accepted block looks like\<close>

lemma for_each_None:
  "for_each is body = Inr None \<Longrightarrow> i \<in> set is \<Longrightarrow> body i = Inr None"
  by (induction "is") (auto split: sum.splits option.splits)

lemma array_read_Some_iff:
  "array_read (Some xs) i = Inr x \<longleftrightarrow> i < length xs \<and> x = xs ! i"
  by (auto simp add: array_read_def)

lemma array_read_Inr:
  "array_read arr i = Inr x \<Longrightarrow> \<exists>xs. arr = Some xs \<and> i < length xs \<and> x = xs ! i"
  by (cases arr) (auto simp add: array_read_def split: if_splits)

lemma for_each_Some:
  "for_each is body = Inr (Some r) \<Longrightarrow> \<exists>i \<in> set is. body i = Inr (Some r)"
  by (induction "is") (auto split: sum.splits option.splits)

lemma second_txin_body_Some: "second_txin_body txin_first second_tx b = Inr (Some r) \<Longrightarrow> r = 0"
  by (auto simp add: second_txin_body_def split: if_splits sum.splits option.splits)

lemma first_txin_body_Some: "first_txin_body first_tx second_tx a = Inr (Some r) \<Longrightarrow> r = 0"
  by (auto simp add: first_txin_body_def split: if_splits sum.splits option.splits
      dest!: for_each_Some dest: second_txin_body_Some)

lemma second_tx_body_Some: "second_tx_body block i first_tx j = Inr (Some r) \<Longrightarrow> r = 0"
  by (auto simp add: second_tx_body_def split: if_splits sum.splits option.splits
      dest!: for_each_Some dest: first_txin_body_Some)

lemma first_tx_body_Some: "first_tx_body p block i = Inr (Some r) \<Longrightarrow> r = 0"
  by (auto simp add: first_tx_body_def split: if_splits sum.splits option.splits
      dest!: for_each_Some dest: second_tx_body_Some)

lemma valid_block_loops_Some:
  "for_each [0..<unat (transaction_count block)] (first_tx_body p block) = Inr (Some r) \<Longrightarrow> r = 0"
  by (auto dest!: for_each_Some dest: first_tx_body_Some)

lemma valid_block_accepted:
  assumes "valid_block p block = Inr 1"
  shows "\<not> transaction_count block < 1"
    and "\<exists>tx. array_read (transactions block) 0 = Inr (Some tx) \<and> is_coinbase_tx tx \<noteq> 0"
    and "for_each [0..<unat (transaction_count block)] (first_tx_body p block) = Inr None"
  using assms
  by (auto simp add: valid_block_def split: if_splits sum.splits option.splits
      dest: valid_block_loops_Some)

lemma first_tx_body_None:
  assumes "first_tx_body p block i = Inr None"
  shows "\<exists>tx. array_read (transactions block) i = Inr (Some tx)
           \<and> valid_transaction p tx \<noteq> 0
           \<and> (i \<noteq> 0 \<longrightarrow> is_coinbase_tx tx = 0)
           \<and> for_each [0..<unat (transaction_count block)] (second_tx_body block i tx) = Inr None"
  using assms
  by (auto simp add: first_tx_body_def split: if_splits sum.splits option.splits)

lemma second_tx_body_None:
  assumes "second_tx_body block i first_tx j = Inr None"
  shows "\<exists>tx. array_read (transactions block) j = Inr (Some tx)
           \<and> (i \<noteq> j \<longrightarrow> compare_hash (id_tx first_tx) (id_tx tx) = 0
                \<and> for_each [0..<unat (txin_count first_tx)] (first_txin_body first_tx tx) = Inr None)"
  using assms
  by (auto simp add: second_tx_body_def split: if_splits sum.splits option.splits)

lemma first_txin_body_None:
  assumes "first_txin_body first_tx second_tx a = Inr None"
  shows "\<exists>txin. a < length (txins first_tx) \<and> txins first_tx ! a = Some txin
           \<and> for_each [0..<unat (txin_count second_tx)] (second_txin_body txin second_tx) = Inr None"
  using assms
  by (auto simp add: first_txin_body_def array_read_def split: if_splits sum.splits option.splits)

lemma second_txin_body_None:
  assumes "second_txin_body txin_first second_tx b = Inr None"
  shows "\<exists>txin. b < length (txins second_tx) \<and> txins second_tx ! b = Some txin
           \<and> \<not> (transaction txin_first = transaction txin \<and> txout_index txin_first = txout_index txin)"
  using assms
  by (auto simp add: second_txin_body_def array_read_def compare_hash_def
      split: if_splits sum.splits option.splits)

lemma valid_block_transactions:
  assumes "valid_block p block = Inr 1"
  shows "\<exists>txs. transactions block = Some txs
           \<and> 0 < unat (transaction_count block)
           \<and> unat (transaction_count block) \<le> length txs
           \<and> (\<forall>i < unat (transaction_count block). \<exists>tx. txs ! i = Some tx
                 \<and> valid_transaction p tx \<noteq> 0
                 \<and> (is_coinbase_tx tx \<noteq> 0 \<longleftrightarrow> i = 0)
                 \<and> for_each [0..<unat (transaction_count block)] (second_tx_body block i tx) = Inr None)"
proof -
  let ?n = "unat (transaction_count block)"
  from valid_block_accepted(1) [OF assms] have pos: "0 < ?n"
    by (simp add: word_less_nat_alt)
  from valid_block_accepted(2) [OF assms] obtain cb where
    cb: "array_read (transactions block) 0 = Inr (Some cb)" "is_coinbase_tx cb \<noteq> 0"
    by blast
  from array_read_Inr [OF cb(1)] obtain txs where
    txs: "transactions block = Some txs" "0 < length txs" "txs ! 0 = Some cb"
    by auto
  have each: "\<exists>tx. i < length txs \<and> txs ! i = Some tx
                 \<and> valid_transaction p tx \<noteq> 0
                 \<and> (is_coinbase_tx tx \<noteq> 0 \<longleftrightarrow> i = 0)
                 \<and> for_each [0..<?n] (second_tx_body block i tx) = Inr None"
    if "i < ?n" for i
  proof -
    from that have "first_tx_body p block i = Inr None"
      using for_each_None [OF valid_block_accepted(3) [OF assms], of i] by simp
    from first_tx_body_None [OF this] obtain tx where
      tx: "array_read (transactions block) i = Inr (Some tx)" "valid_transaction p tx \<noteq> 0"
        "i \<noteq> 0 \<longrightarrow> is_coinbase_tx tx = 0"
        "for_each [0..<?n] (second_tx_body block i tx) = Inr None"
      by blast
    from tx(1) txs(1) have "i < length txs" "txs ! i = Some tx"
      by (simp_all add: array_read_Some_iff)
    with tx cb txs show ?thesis
      by (cases "i = 0") auto
  qed
  have "?n \<le> length txs"
  proof (rule ccontr)
    assume "\<not> ?n \<le> length txs"
    then have "length txs < ?n" by simp
    from each [OF this] show False by simp
  qed
  with txs pos each show ?thesis
    by blast
qed

lemma present_nth_mem: "k < length xs \<Longrightarrow> xs ! k = Some y \<Longrightarrow> y \<in> set (present xs)"
  by (force simp add: present_def in_set_conv_nth)

lemma present_Cons: "present (x # xs) = (case x of None \<Rightarrow> [] | Some v \<Rightarrow> [v]) @ present xs"
  by (simp add: present_def)

lemma present_distinct_nth:
  "distinct (map f (present xs)) \<Longrightarrow> a < length xs \<Longrightarrow> b < length xs \<Longrightarrow> a \<noteq> b
     \<Longrightarrow> xs ! a = Some x \<Longrightarrow> xs ! b = Some y \<Longrightarrow> f x \<noteq> f y"
proof (induction xs arbitrary: a b)
  case Nil
  then show ?case by simp
next
  case (Cons z zs)
  show ?case
  proof (cases a)
    case 0
    with Cons.prems obtain b' where b: "b = Suc b'" "b' < length zs" "zs ! b' = Some y"
      by (cases b) auto
    from 0 Cons.prems have z: "z = Some x" by simp
    from b have "y \<in> set (present zs)" by (simp add: present_nth_mem)
    with Cons.prems(1) z show ?thesis
      by (auto simp add: present_Cons)
  next
    case (Suc a')
    show ?thesis
    proof (cases b)
      case 0
      with Cons.prems have z: "z = Some y" by simp
      from Suc Cons.prems have "x \<in> set (present zs)" by (simp add: present_nth_mem)
      then have "f x \<in> f ` set (present zs)" by (rule imageI)
      with Cons.prems(1) z show ?thesis
        by (auto simp add: present_Cons)
    next
      case b: (Suc b')
      from Cons.prems(1) have "distinct (map f (present zs))"
        by (simp add: present_Cons split: option.splits)
      from Cons.IH [OF this, of a' b'] Suc b Cons.prems show ?thesis
        by simp
    qed
  qed
qed

lemma is_coinbase_tx_count: "is_coinbase_tx tx \<noteq> 0 \<Longrightarrow> txin_count tx = 1"
  by (simp add: is_coinbase_tx_def split: if_splits)

lemma valid_transaction_distinct:
  assumes "valid_transaction p tx \<noteq> 0" and "is_coinbase_tx tx = 0"
  shows "distinct (map (\<lambda>txin. (transaction txin, txout_index txin)) (tx_inputs tx))"
  using assms by (simp add: valid_transaction_def split: if_splits)

text \<open>
  C4: in a block that \<^verbatim>\<open>valid_block\<close> accepts the transaction at position 0 is a
  coinbase and no transaction at a position above 0 is one, so that position 0 is the
  only position holding a coinbase.
\<close>

theorem valid_block_coinbase_first:
  assumes "valid_block p block = Inr 1"
  shows "\<exists>txs. transactions block = Some txs
           \<and> 0 < unat (transaction_count block)
           \<and> unat (transaction_count block) \<le> length txs
           \<and> (\<exists>tx. txs ! 0 = Some tx \<and> is_coinbase_tx tx \<noteq> 0)
           \<and> (\<forall>i. 0 < i \<and> i < unat (transaction_count block) \<longrightarrow>
                  (\<exists>tx. txs ! i = Some tx \<and> is_coinbase_tx tx = 0))
           \<and> {i. i < unat (transaction_count block)
                   \<and> (\<exists>tx. txs ! i = Some tx \<and> is_coinbase_tx tx \<noteq> 0)} = {0}"
proof -
  from valid_block_transactions [OF assms] obtain txs where
    txs: "transactions block = Some txs" "0 < unat (transaction_count block)"
      "unat (transaction_count block) \<le> length txs"
    and each: "\<And>i. i < unat (transaction_count block) \<Longrightarrow>
        \<exists>tx. txs ! i = Some tx \<and> (is_coinbase_tx tx \<noteq> 0 \<longleftrightarrow> i = 0)"
    by blast
  have first: "\<exists>tx. txs ! 0 = Some tx \<and> is_coinbase_tx tx \<noteq> 0"
    using each [OF txs(2)] by simp
  have rest: "\<forall>i. 0 < i \<and> i < unat (transaction_count block) \<longrightarrow>
      (\<exists>tx. txs ! i = Some tx \<and> is_coinbase_tx tx = 0)"
    using each by fastforce
  have only: "{i. i < unat (transaction_count block)
      \<and> (\<exists>tx. txs ! i = Some tx \<and> is_coinbase_tx tx \<noteq> 0)} = {0}"
  proof (rule set_eqI)
    fix i
    show "i \<in> {i. i < unat (transaction_count block)
        \<and> (\<exists>tx. txs ! i = Some tx \<and> is_coinbase_tx tx \<noteq> 0)} \<longleftrightarrow> i \<in> {0}"
      using each [of i] first txs(2) by auto
  qed
  from txs first rest only show ?thesis
    by blast
qed

theorem valid_block_coinbase_first_witness:
  "valid_block example_params example_block = Inr 1
   \<and> transactions example_block = Some [Some example_coinbase, Some example_spend]
   \<and> is_coinbase_tx example_coinbase \<noteq> 0
   \<and> is_coinbase_tx example_spend = 0
   \<and> (\<exists>txs. transactions example_block = Some txs
         \<and> {i. i < unat (transaction_count example_block)
                \<and> (\<exists>tx. txs ! i = Some tx \<and> is_coinbase_tx tx \<noteq> 0)} = {0})"
proof -
  have txs: "transactions example_block = Some [Some example_coinbase, Some example_spend]"
    by (simp add: example_block_def)
  from valid_block_coinbase_first [OF example_block_valid]
  show ?thesis
    using example_block_valid txs example_coinbase_is_coinbase example_spend_not_coinbase
    by auto
qed

lemma distinct_concat_nth:
  assumes "\<And>i. i < length xss \<Longrightarrow> distinct (xss ! i)"
    and "\<And>i j. i < length xss \<Longrightarrow> j < length xss \<Longrightarrow> i \<noteq> j \<Longrightarrow> set (xss ! i) \<inter> set (xss ! j) = {}"
  shows "distinct (concat xss)"
  using assms
proof (induction xss)
  case Nil
  then show ?case by simp
next
  case (Cons xs xss)
  have head: "distinct xs"
    using Cons.prems(1) [of 0] by simp
  have tail: "distinct (concat xss)"
  proof (rule Cons.IH)
    fix i assume "i < length xss"
    then show "distinct (xss ! i)"
      using Cons.prems(1) [of "Suc i"] by simp
  next
    fix i j assume "i < length xss" "j < length xss" "i \<noteq> j"
    then show "set (xss ! i) \<inter> set (xss ! j) = {}"
      using Cons.prems(2) [of "Suc i" "Suc j"] by simp
  qed
  have apart: "set xs \<inter> set (concat xss) = {}"
  proof -
    have "set xs \<inter> set ys = {}" if "ys \<in> set xss" for ys
    proof -
      from that obtain j where "j < length xss" "xss ! j = ys"
        by (auto simp add: in_set_conv_nth)
      then show ?thesis
        using Cons.prems(2) [of 0 "Suc j"] by simp
    qed
    then show ?thesis
      by auto
  qed
  from head tail apart show ?case
    by simp
qed

lemma present_mem_nth: "y \<in> set (present xs) \<Longrightarrow> \<exists>k < length xs. xs ! k = Some y"
  by (auto simp add: present_def in_set_conv_nth split: option.splits)

lemma tx_inputs_mem:
  assumes "x \<in> set (tx_inputs tx)"
  shows "\<exists>a. a < unat (txin_count tx) \<and> a < length (txins tx) \<and> txins tx ! a = Some x"
proof -
  from assms obtain k where "k < length (take (unat (txin_count tx)) (txins tx))"
    "take (unat (txin_count tx)) (txins tx) ! k = Some x"
    unfolding tx_inputs_def by (blast dest: present_mem_nth)
  then show ?thesis
    by (intro exI [of _ k]) simp
qed

lemma present_all_Some:
  assumes "\<And>i. i < length xs \<Longrightarrow> \<exists>v. xs ! i = Some v"
  shows "length (present xs) = length xs \<and> (\<forall>i < length xs. xs ! i = Some (present xs ! i))"
  using assms
proof (induction xs)
  case Nil
  then show ?case by (simp add: present_def)
next
  case (Cons x xs)
  from Cons.prems [of 0] obtain v where v: "x = Some v" by auto
  have "\<And>i. i < length xs \<Longrightarrow> \<exists>v. xs ! i = Some v"
    using Cons.prems [of "Suc _"] by simp
  from Cons.IH [OF this] v show ?case
    by (auto simp add: present_Cons nth_Cons split: nat.splits)
qed

lemma valid_block_inputs_apart:
  assumes valid: "valid_block p block = Inr 1"
    and txs: "transactions block = Some txs"
    and i: "i < unat (transaction_count block)" "txs ! i = Some tx1"
    and j: "j < unat (transaction_count block)" "txs ! j = Some tx2"
    and a: "a < unat (txin_count tx1)" "a < length (txins tx1)" "txins tx1 ! a = Some txin1"
    and b: "b < unat (txin_count tx2)" "b < length (txins tx2)" "txins tx2 ! b = Some txin2"
    and ne: "(i, a) \<noteq> (j, b)"
  shows "(transaction txin1, txout_index txin1) \<noteq> (transaction txin2, txout_index txin2)"
proof -
  let ?n = "unat (transaction_count block)"
  from valid_block_transactions [OF valid] txs
  have each: "\<And>k. k < ?n \<Longrightarrow> \<exists>tx. txs ! k = Some tx \<and> valid_transaction p tx \<noteq> 0
      \<and> (is_coinbase_tx tx \<noteq> 0 \<longleftrightarrow> k = 0)
      \<and> for_each [0..<?n] (second_tx_body block k tx) = Inr None"
    and len: "?n \<le> length txs"
    by auto
  from each [OF i(1)] i(2)
  have tx1: "valid_transaction p tx1 \<noteq> 0" "is_coinbase_tx tx1 \<noteq> 0 \<longleftrightarrow> i = 0"
    "for_each [0..<?n] (second_tx_body block i tx1) = Inr None"
    by auto
  show ?thesis
  proof (cases "i = j")
    case False
    from for_each_None [OF tx1(3), of j] j(1)
    have "second_tx_body block i tx1 j = Inr None" by simp
    from second_tx_body_None [OF this] False txs j len
    have "for_each [0..<unat (txin_count tx1)] (first_txin_body tx1 tx2) = Inr None"
      by (auto simp add: array_read_Some_iff)
    from for_each_None [OF this, of a] a(1)
    have "first_txin_body tx1 tx2 a = Inr None" by simp
    from first_txin_body_None [OF this] a(3)
    have "for_each [0..<unat (txin_count tx2)] (second_txin_body txin1 tx2) = Inr None"
      by auto
    from for_each_None [OF this, of b] b(1)
    have "second_txin_body txin1 tx2 b = Inr None" by simp
    from second_txin_body_None [OF this] b(3) show ?thesis
      by auto
  next
    case True
    with i j have same: "tx2 = tx1" by simp
    from True ne have ab: "a \<noteq> b" by simp
    show ?thesis
    proof (cases "i = 0")
      case True
      with tx1(2) have "txin_count tx1 = 1"
        by (simp add: is_coinbase_tx_count)
      with a(1) b(1) same ab show ?thesis by simp
    next
      case False
      with tx1 have "distinct (map (\<lambda>txin. (transaction txin, txout_index txin)) (tx_inputs tx1))"
        by (simp add: valid_transaction_distinct)
      then have "distinct (map (\<lambda>txin. (transaction txin, txout_index txin))
          (present (take (unat (txin_count tx1)) (txins tx1))))"
        by (simp add: tx_inputs_def)
      from present_distinct_nth [OF this, of a b txin1 txin2] a b same ab show ?thesis
        by simp
    qed
  qed
qed


lemma length_present: "length (present xs) \<le> length xs"
  by (induction xs) (simp_all add: present_def split: option.splits)

lemma coinbase_inputs_distinct:
  assumes "is_coinbase_tx tx \<noteq> 0"
  shows "distinct (map f (tx_inputs tx))"
proof -
  from assms have "txin_count tx = 1"
    by (rule is_coinbase_tx_count)
  then have "length (tx_inputs tx) \<le> 1"
    using length_present [of "take 1 (txins tx)"] by (simp add: tx_inputs_def)
  then show ?thesis
    by (cases "tx_inputs tx") simp_all
qed

lemma valid_block_inputs_list_distinct:
  assumes valid: "valid_block p block = Inr 1"
  shows "distinct (map outpoint (block_inputs block))"
proof -
  let ?n = "unat (transaction_count block)"
  from valid_block_transactions [OF valid] obtain txs where
    txs: "transactions block = Some txs" and len: "?n \<le> length txs"
    and each: "\<And>i. i < ?n \<Longrightarrow> \<exists>tx. txs ! i = Some tx \<and> valid_transaction p tx \<noteq> 0
        \<and> (is_coinbase_tx tx \<noteq> 0 \<longleftrightarrow> i = 0)"
    by blast
  let ?T = "block_transactions block"
  have T: "?T = present (take ?n txs)"
    by (simp add: block_transactions_def txs)
  have "\<And>i. i < length (take ?n txs) \<Longrightarrow> \<exists>v. take ?n txs ! i = Some v"
    using each by fastforce
  from present_all_Some [OF this] len
  have lenT: "length ?T = ?n" and nth: "\<And>i. i < ?n \<Longrightarrow> txs ! i = Some (?T ! i)"
    by (simp_all add: T)
  let ?xss = "map (\<lambda>tx. map outpoint (tx_inputs tx)) ?T"
  have "distinct (concat ?xss)"
  proof (rule distinct_concat_nth)
    fix i assume "i < length ?xss"
    then have i: "i < ?n" by (simp add: lenT)
    from each [OF i] nth [OF i]
    have tx: "valid_transaction p (?T ! i) \<noteq> 0" "is_coinbase_tx (?T ! i) \<noteq> 0 \<longleftrightarrow> i = 0"
      by auto
    have "distinct (map outpoint (tx_inputs (?T ! i)))"
    proof (cases "i = 0")
      case True
      with tx(2) show ?thesis
        by (simp add: coinbase_inputs_distinct)
    next
      case False
      with tx have "distinct (map (\<lambda>txin. (transaction txin, txout_index txin)) (tx_inputs (?T ! i)))"
        by (simp add: valid_transaction_distinct)
      then show ?thesis
        by (simp add: outpoint_def [abs_def])
    qed
    with i show "distinct (?xss ! i)"
      by (simp add: lenT)
  next
    fix i j assume "i < length ?xss" "j < length ?xss" and ne: "i \<noteq> j"
    then have i: "i < ?n" and j: "j < ?n" by (simp_all add: lenT)
    have "outpoint x \<noteq> outpoint y"
      if x: "x \<in> set (tx_inputs (?T ! i))" and y: "y \<in> set (tx_inputs (?T ! j))" for x y
    proof -
      from tx_inputs_mem [OF x] obtain a where
        a: "a < unat (txin_count (?T ! i))" "a < length (txins (?T ! i))" "txins (?T ! i) ! a = Some x"
        by blast
      from tx_inputs_mem [OF y] obtain b where
        b: "b < unat (txin_count (?T ! j))" "b < length (txins (?T ! j))" "txins (?T ! j) ! b = Some y"
        by blast
      from ne have "(i, a) \<noteq> (j, b)" by simp
      from valid_block_inputs_apart [OF valid txs i nth [OF i] j nth [OF j] a b this]
      show ?thesis
        by (simp add: outpoint_def)
    qed
    then have "set (map outpoint (tx_inputs (?T ! i))) \<inter> set (map outpoint (tx_inputs (?T ! j))) = {}"
      by (auto simp del: split_paired_All) metis
    with i j show "set (?xss ! i) \<inter> set (?xss ! j) = {}"
      by (simp add: lenT)
  qed
  then show ?thesis
    by (simp add: block_inputs_def map_concat o_def)
qed

text \<open>
  C3: in a block that \<^verbatim>\<open>valid_block\<close> accepts, the list of what the inputs of all its
  transactions spend has no entry twice: two inputs at different places (of two
  transactions, or of one transaction) never name the same previous transaction and
  output index. The loops of \<^verbatim>\<open>valid_block\<close> compare the inputs of different
  transactions; inputs of one transaction are kept apart by \<^verbatim>\<open>valid_transaction\<close>, and a
  coinbase has one input only.
\<close>

theorem valid_block_inputs_distinct:
  assumes "valid_block p block = Inr 1"
  shows "distinct (map outpoint (block_inputs block))
     \<and> (transactions block = Some txs
          \<and> i < unat (transaction_count block) \<and> txs ! i = Some tx1
          \<and> j < unat (transaction_count block) \<and> txs ! j = Some tx2
          \<and> a < unat (txin_count tx1) \<and> a < length (txins tx1) \<and> txins tx1 ! a = Some txin1
          \<and> b < unat (txin_count tx2) \<and> b < length (txins tx2) \<and> txins tx2 ! b = Some txin2
          \<and> (i, a) \<noteq> (j, b)
        \<longrightarrow> outpoint txin1 \<noteq> outpoint txin2)"
  using valid_block_inputs_list_distinct [OF assms]
    valid_block_inputs_apart [OF assms, of txs i tx1 j tx2 a txin1 b txin2]
  by (simp add: outpoint_def)

theorem valid_block_inputs_distinct_witness:
  "valid_block example_params example_block = Inr 1
   \<and> transactions example_block = Some [Some example_coinbase, Some example_spend]
   \<and> Suc 0 < unat (transaction_count example_block)
   \<and> [Some example_coinbase, Some example_spend] ! Suc 0 = Some example_spend
   \<and> 0 < unat (txin_count example_spend) \<and> 0 < length (txins example_spend)
   \<and> txins example_spend ! 0 =
        Some \<lparr>transaction = replicate 32 0xAA, txout_index = 0,
               signature = replicate 64 5, public_key = replicate 32 5\<rparr>
   \<and> Suc 0 < unat (txin_count example_spend) \<and> Suc 0 < length (txins example_spend)
   \<and> txins example_spend ! Suc 0 =
        Some \<lparr>transaction = replicate 32 0xAA, txout_index = 1,
               signature = replicate 64 6, public_key = replicate 32 6\<rparr>
   \<and> (Suc 0, 0 :: nat) \<noteq> (Suc 0, Suc 0)
   \<and> (replicate 32 (0xAA :: byte), 0 :: u32) \<noteq> (replicate 32 0xAA, 1)
   \<and> distinct (map outpoint (block_inputs example_block))"
proof -
  let ?txin1 = "\<lparr>transaction = replicate 32 (0xAA :: byte), txout_index = 0 :: u32,
               signature = replicate 64 (5 :: byte), public_key = replicate 32 (5 :: byte)\<rparr>"
  let ?txin2 = "\<lparr>transaction = replicate 32 (0xAA :: byte), txout_index = 1 :: u32,
               signature = replicate 64 (6 :: byte), public_key = replicate 32 (6 :: byte)\<rparr>"
  have txs: "transactions example_block = Some [Some example_coinbase, Some example_spend]"
    by (simp add: example_block_def)
  have n: "Suc 0 < unat (transaction_count example_block)"
    by (simp add: example_block_def)
  have tx: "[Some example_coinbase, Some example_spend] ! Suc 0 = Some example_spend"
    by simp
  have a: "0 < unat (txin_count example_spend)" "0 < length (txins example_spend)"
    "txins example_spend ! 0 = Some ?txin1"
    by (simp_all add: example_spend_def)
  have b: "Suc 0 < unat (txin_count example_spend)" "Suc 0 < length (txins example_spend)"
    "txins example_spend ! Suc 0 = Some ?txin2"
    by (simp_all add: example_spend_def)
  have ne: "(Suc 0, 0 :: nat) \<noteq> (Suc 0, Suc 0)"
    by simp
  from valid_block_inputs_distinct
    [OF example_block_valid, where txs = "[Some example_coinbase, Some example_spend]"
       and i = "Suc 0" and j = "Suc 0" and ?tx1.0 = example_spend and ?tx2.0 = example_spend
       and a = 0 and b = "Suc 0" and ?txin1.0 = ?txin1 and ?txin2.0 = ?txin2]
    txs n tx a b ne
  have "distinct (map outpoint (block_inputs example_block))"
    and "(replicate 32 (0xAA :: byte), 0 :: u32) \<noteq> (replicate 32 0xAA, 1)"
    by (simp_all add: outpoint_def)
  with example_block_valid txs n tx a b ne show ?thesis
    by simp
qed

section \<open>Signature bytes and the verdict of valid_block\<close>

lemma for_each_cong:
  "(\<And>i. i \<in> set is \<Longrightarrow> body i = body' i) \<Longrightarrow> for_each is body = for_each is body'"
  by (induction "is") (simp_all split: sum.splits option.splits)

lemma present_map: "present (map (map_option f) xs) = map f (present xs)"
  by (induction xs) (simp_all add: present_def split: option.splits)

lemma same_length:
  "same_but_signatures tx tx' \<Longrightarrow> length (txins tx) = length (txins tx')"
  unfolding same_but_signatures_def by (metis length_map)

lemma same_nth:
  assumes "same_but_signatures tx tx'" and "a < length (txins tx)"
  shows "map_option erase_signature (txins tx ! a) = map_option erase_signature (txins tx' ! a)"
proof -
  from assms(1) have eq: "map (map_option erase_signature) (txins tx)
      = map (map_option erase_signature) (txins tx')"
    by (simp add: same_but_signatures_def)
  from assms have "a < length (txins tx')"
    by (simp add: same_length)
  with assms(2) nth_map [of a "txins tx" "map_option erase_signature"]
    nth_map [of a "txins tx'" "map_option erase_signature"] eq
  show ?thesis by simp
qed

lemma erase_signature_eq:
  "erase_signature x = erase_signature y \<Longrightarrow>
     transaction x = transaction y \<and> txout_index x = txout_index y \<and> public_key x = public_key y"
  by (cases x, cases y) (simp add: erase_signature_def)

lemma same_array_read:
  assumes "same_but_signatures tx tx'"
  shows "(\<exists>f. array_read (Some (txins tx)) a = Inl f \<and> array_read (Some (txins tx')) a = Inl f)
     \<or> (array_read (Some (txins tx)) a = Inr None \<and> array_read (Some (txins tx')) a = Inr None)
     \<or> (\<exists>x y. array_read (Some (txins tx)) a = Inr (Some x)
            \<and> array_read (Some (txins tx')) a = Inr (Some y)
            \<and> transaction x = transaction y \<and> txout_index x = txout_index y)"
proof (cases "a < length (txins tx)")
  case False
  with same_length [OF assms] show ?thesis
    by (simp add: array_read_def)
next
  case True
  from same_nth [OF assms True] True same_length [OF assms] show ?thesis
    by (cases "txins tx ! a"; cases "txins tx' ! a")
       (auto simp add: array_read_def dest: erase_signature_eq)
qed

lemma same_second_txin_body:
  assumes "same_but_signatures tx tx'"
    and "transaction x = transaction y" and "txout_index x = txout_index y"
  shows "second_txin_body x tx b = second_txin_body y tx' b"
  using same_array_read [OF assms(1), of b] assms(2,3)
  by (auto simp add: second_txin_body_def)

lemma same_txin_count: "same_but_signatures tx tx' \<Longrightarrow> txin_count tx = txin_count tx'"
  by (simp add: same_but_signatures_def)

lemma same_first_txin_body:
  assumes "same_but_signatures t1 t1'" and "same_but_signatures t2 t2'"
  shows "first_txin_body t1 t2 a = first_txin_body t1' t2' a"
proof -
  have inner: "for_each [0..<unat (txin_count t2)] (second_txin_body x t2)
      = for_each [0..<unat (txin_count t2')] (second_txin_body y t2')"
    if "transaction x = transaction y" "txout_index x = txout_index y" for x y
    unfolding same_txin_count [OF assms(2)]
    by (rule for_each_cong) (rule same_second_txin_body [OF assms(2) that])
  from same_array_read [OF assms(1), of a] show ?thesis
    by (auto simp add: first_txin_body_def inner)
qed

lemma same_id: "same_but_signatures tx tx' \<Longrightarrow> id_tx tx = id_tx tx'"
  by (simp add: same_but_signatures_def)

lemma get_txin_header_erase: "get_txin_header (erase_signature x) = get_txin_header x"
  by (simp add: get_txin_header_def erase_signature_def)

lemma same_sign_header:
  assumes "same_but_signatures tx tx'"
  shows "get_tx_sign_header tx = get_tx_sign_header tx'"
proof -
  let ?E = "map_option erase_signature"
  have ins: "map get_txin_header (tx_inputs t)
      = map get_txin_header (present (take (unat (txin_count t)) (map ?E (txins t))))" for t
    by (simp add: tx_inputs_def take_map present_map get_txin_header_erase o_def)
  from assms have "map get_txin_header (tx_inputs tx) = map get_txin_header (tx_inputs tx')"
    unfolding ins by (simp add: same_but_signatures_def)
  moreover from assms have "tx_outputs tx = tx_outputs tx'"
    by (simp add: tx_outputs_def same_but_signatures_def)
  ultimately show ?thesis
    by (simp add: get_tx_sign_header_def)
qed

lemma same_tx_id:
  "same_but_signatures tx tx' \<Longrightarrow> compute_tx_id p tx = compute_tx_id p tx'"
  by (simp add: compute_tx_id_def same_sign_header)

lemma same_header_size:
  "same_but_signatures tx tx' \<Longrightarrow> get_tx_header_size p tx = get_tx_header_size p tx'"
  by (simp add: get_tx_header_size_def same_but_signatures_def)

lemma same_is_coinbase:
  assumes "same_but_signatures tx tx'"
  shows "is_coinbase_tx tx = is_coinbase_tx tx'"
proof (cases "txins tx")
  case Nil
  with same_length [OF assms] show ?thesis
    by (simp add: is_coinbase_tx_def)
next
  case (Cons x xs)
  with same_length [OF assms] obtain y ys where ys: "txins tx' = y # ys"
    by (cases "txins tx'") auto
  from same_nth [OF assms, of 0] Cons ys
  have "map_option erase_signature x = map_option erase_signature y"
    by simp
  then show ?thesis
    using Cons ys same_txin_count [OF assms]
    by (cases x; cases y) (auto simp add: is_coinbase_tx_def dest: erase_signature_eq)
qed



lemma related_array_read:
  assumes "rel_option (list_all2 (rel_option (same_verdict p))) arr arr'"
  shows "(\<exists>f. array_read arr i = Inl f \<and> array_read arr' i = Inl f)
     \<or> (array_read arr i = Inr None \<and> array_read arr' i = Inr None)
     \<or> (\<exists>t t'. array_read arr i = Inr (Some t) \<and> array_read arr' i = Inr (Some t')
            \<and> same_verdict p t t')"
proof (cases arr)
  case None
  with assms show ?thesis
    by (cases arr') (simp_all add: array_read_def)
next
  case (Some txs)
  with assms obtain txs' where txs': "arr' = Some txs'"
    and rel: "list_all2 (rel_option (same_verdict p)) txs txs'"
    by (cases arr') auto
  show ?thesis
  proof (cases "i < length txs")
    case False
    with list_all2_lengthD [OF rel] Some txs' show ?thesis
      by (simp add: array_read_def)
  next
    case True
    from list_all2_nthD [OF rel True] have "rel_option (same_verdict p) (txs ! i) (txs' ! i)" .
    with True list_all2_lengthD [OF rel] Some txs' show ?thesis
      by (cases "txs ! i"; cases "txs' ! i") (auto simp add: array_read_def)
  qed
qed

lemma related_array_read_cases [consumes 1, case_names fault null tx]:
  assumes "rel_option (list_all2 (rel_option (same_verdict p))) arr arr'"
  obtains (fault) f where "array_read arr i = Inl f" "array_read arr' i = Inl f"
    | (null) "array_read arr i = Inr None" "array_read arr' i = Inr None"
    | (tx) t t' where "array_read arr i = Inr (Some t)" "array_read arr' i = Inr (Some t')"
        "same_but_signatures t t'" "valid_transaction p t = valid_transaction p t'"
  using related_array_read [OF assms, of i] by (auto simp add: same_verdict_def)

lemma related_second_tx_body:
  assumes rel: "rel_option (list_all2 (rel_option (same_verdict p))) (transactions b) (transactions b')"
    and first: "same_but_signatures t1 t1'"
  shows "second_tx_body b i t1 j = second_tx_body b' i t1' j"
  using rel
proof (cases rule: related_array_read_cases [where i = j])
  case (fault f)
  then show ?thesis by (simp add: second_tx_body_def)
next
  case null
  then show ?thesis by (simp add: second_tx_body_def)
next
  case (tx t2 t2')
  have "for_each [0..<unat (txin_count t1)] (first_txin_body t1 t2)
      = for_each [0..<unat (txin_count t1')] (first_txin_body t1' t2')"
    unfolding same_txin_count [OF first]
    by (rule for_each_cong) (rule same_first_txin_body [OF first tx(3)])
  with tx(1,2) show ?thesis
    by (simp add: second_tx_body_def same_id [OF first] same_id [OF tx(3)])
qed

lemma related_first_tx_body:
  assumes rel: "rel_option (list_all2 (rel_option (same_verdict p))) (transactions b) (transactions b')"
    and count: "transaction_count b' = transaction_count b"
  shows "first_tx_body p b i = first_tx_body p b' i"
  using rel
proof (cases rule: related_array_read_cases [where i = i])
  case (fault f)
  then show ?thesis by (simp add: first_tx_body_def)
next
  case null
  then show ?thesis by (simp add: first_tx_body_def)
next
  case (tx t1 t1')
  have inner: "for_each [0..<unat (transaction_count b)] (second_tx_body b n t1)
      = for_each [0..<unat (transaction_count b')] (second_tx_body b' n t1')" for n
    unfolding count
    by (rule for_each_cong) (rule related_second_tx_body [OF rel tx(3)])
  from tx(1,2,4) show ?thesis
    by (simp add: first_tx_body_def same_is_coinbase [OF tx(3)] inner)
qed

lemma related_block_header_size_loop:
  assumes rel: "rel_option (list_all2 (rel_option (same_verdict p))) (transactions b) (transactions b')"
  shows "block_header_size_loop p b is acc = block_header_size_loop p b' is acc"
proof (induction "is" arbitrary: acc)
  case Nil
  then show ?case by simp
next
  case (Cons i "is")
  from rel show ?case
  proof (cases rule: related_array_read_cases [where i = i])
    case (fault f)
    then show ?thesis by simp
  next
    case null
    then show ?thesis by simp
  next
    case (tx t t')
    then show ?thesis
      by (simp add: Cons.IH same_header_size [OF tx(3)])
  qed
qed

lemma related_tx_ids_loop:
  assumes rel: "rel_option (list_all2 (rel_option (same_verdict p))) (transactions b) (transactions b')"
  shows "tx_ids_loop p b is = tx_ids_loop p b' is"
proof (induction "is")
  case Nil
  then show ?case by simp
next
  case (Cons i "is")
  from rel show ?case
  proof (cases rule: related_array_read_cases [where i = i])
    case (fault f)
    then show ?thesis by simp
  next
    case null
    then show ?thesis by simp
  next
    case (tx t t')
    then show ?thesis
      by (simp add: Cons.IH same_tx_id [OF tx(3)] split: prod.splits)
  qed
qed

lemma related_valid_block:
  assumes rel: "rel_option (list_all2 (rel_option (same_verdict p))) (transactions b) txs'"
  shows "valid_block p (b\<lparr>transactions := txs'\<rparr>) = valid_block p b"
proof -
  let ?b' = "b\<lparr>transactions := txs'\<rparr>"
  from rel have rel': "rel_option (list_all2 (rel_option (same_verdict p))) (transactions b) (transactions ?b')"
    by simp
  have count: "transaction_count ?b' = transaction_count b"
    by simp
  have "for_each [0..<unat (transaction_count b)] (first_tx_body p b)
      = for_each [0..<unat (transaction_count b)] (first_tx_body p ?b')"
    by (rule for_each_cong) (rule related_first_tx_body [OF rel' count])
  then have loops: "for_each [0..<unat (transaction_count ?b')] (first_tx_body p ?b')
      = for_each [0..<unat (transaction_count b)] (first_tx_body p b)"
    by simp
  have size: "get_block_header_size p ?b' = get_block_header_size p b"
    using related_block_header_size_loop [OF rel', symmetric]
    by (simp add: get_block_header_size_def)
  have ids: "tx_ids_loop p ?b' is = tx_ids_loop p b is" for "is"
    by (rule related_tx_ids_loop [OF rel', symmetric])
  have mr: "merkle_root ?b' = merkle_root b"
    by simp
  have root: "valid_merkle_root p ?b' = valid_merkle_root p b"
    unfolding valid_merkle_root_def compute_merkle_root_def ids count mr ..
  have hash: "valid_block_hash p ?b' = valid_block_hash p b"
    by (simp add: valid_block_hash_def compute_block_hash_eq serialize_block_header_bytes)
  have ts: "valid_block_timestamp p ?b' = valid_block_timestamp p b"
    by (simp add: valid_block_timestamp_def)
  from rel' show ?thesis
  proof (cases rule: related_array_read_cases [where i = 0])
    case (fault f)
    then show ?thesis
      unfolding valid_block_def loops size root hash ts by simp
  next
    case null
    then show ?thesis
      unfolding valid_block_def loops size root hash ts by simp
  next
    case (tx t t')
    then show ?thesis
      unfolding valid_block_def loops size root hash ts
      by (simp add: same_is_coinbase [OF tx(3)])
  qed
qed

lemma same_but_signatures_refl: "same_but_signatures tx tx"
  by (simp add: same_but_signatures_def)

lemma same_but_signatures_tamper: "same_but_signatures tx (tamper_tx k sg tx)"
proof -
  let ?E = "map_option erase_signature"
  let ?v = "map_option (\<lambda>txin. txin\<lparr>signature := sg\<rparr>) (txins tx ! k)"
  have v: "?E ?v = ?E (txins tx ! k)"
    by (cases "txins tx ! k") (simp_all add: erase_signature_def)
  have "map ?E ((txins tx)[k := ?v]) = (map ?E (txins tx))[k := ?E (txins tx ! k)]"
    by (simp add: map_update v)
  also have "\<dots> = map ?E (txins tx)"
    by (cases "k < length (txins tx)") (simp_all add: list_update_same_conv list_update_beyond)
  finally show ?thesis
    by (simp add: same_but_signatures_def tamper_tx_def)
qed

lemma tamper_block_related:
  assumes "\<And>txs tx. transactions block = Some txs \<Longrightarrow> i < length txs \<Longrightarrow> txs ! i = Some tx
      \<Longrightarrow> valid_transaction p (tamper_tx k sg tx) = valid_transaction p tx"
  shows "rel_option (list_all2 (rel_option (same_verdict p))) (transactions block)
           (transactions (tamper_block i k sg block))"
proof (cases "transactions block")
  case None
  then show ?thesis by (simp add: tamper_block_def)
next
  case (Some txs)
  have "list_all2 (rel_option (same_verdict p)) txs (txs[i := map_option (tamper_tx k sg) (txs ! i)])"
  proof (rule list_all2_all_nthI)
    show "length txs = length (txs[i := map_option (tamper_tx k sg) (txs ! i)])"
      by simp
  next
    fix n assume n: "n < length txs"
    show "rel_option (same_verdict p) (txs ! n) (txs[i := map_option (tamper_tx k sg) (txs ! i)] ! n)"
    proof (cases "n = i")
      case True
      with n assms [OF Some] show ?thesis
        by (cases "txs ! i") (simp_all add: same_verdict_def same_but_signatures_tamper)
    next
      case False
      then show ?thesis
        by (cases "txs ! n") (simp_all add: same_verdict_def same_but_signatures_refl)
    qed
  qed
  with Some show ?thesis
    by (simp add: tamper_block_def)
qed

text \<open>
  \<^verbatim>\<open>valid_block\<close> reads the signature bytes of an input only through its call of
  \<^verbatim>\<open>valid_transaction\<close>: changing them leaves its result as it was whenever
  \<^verbatim>\<open>valid_transaction\<close> gives the changed transaction the verdict it gave the original.
\<close>

lemma valid_block_tamper:
  assumes "\<And>txs tx. transactions block = Some txs \<Longrightarrow> i < length txs \<Longrightarrow> txs ! i = Some tx
      \<Longrightarrow> valid_transaction p (tamper_tx k sg tx) = valid_transaction p tx"
  shows "valid_block p (tamper_block i k sg block) = valid_block p block"
proof -
  have rel: "rel_option (list_all2 (rel_option (same_verdict p))) (transactions block)
      (transactions (tamper_block i k sg block))"
    by (rule tamper_block_related) (rule assms)
  have "tamper_block i k sg block = block\<lparr>transactions := transactions (tamper_block i k sg block)\<rparr>"
    by (simp add: tamper_block_def)
  with related_valid_block [OF rel] show ?thesis
    by simp
qed

text \<open>
  \<^verbatim>\<open>validate_block_signatures\<close> returns 0 exactly when \<^verbatim>\<open>validate_tx_signatures\<close>
  returns 0 for every transaction of the block, and 1 as soon as one transaction gets a
  non-zero result; it returns nothing else.
\<close>

lemma for_each_None_iff:
  "for_each is body = Inr None \<longleftrightarrow> (\<forall>i \<in> set is. body i = Inr None)"
  by (induction "is") (auto split: sum.splits option.splits)

lemma signatures_body_Some: "signatures_body p block n = Inr (Some r) \<Longrightarrow> r = 1"
  by (auto simp add: signatures_body_def split: sum.splits option.splits if_splits)

lemma signatures_body_None_iff:
  "signatures_body p block n = Inr None \<longleftrightarrow>
     (\<exists>tx. array_read (transactions block) n = Inr (Some tx) \<and> validate_tx_signatures p tx = 0)"
  by (auto simp add: signatures_body_def split: sum.splits option.splits if_splits)

lemma validate_block_signatures_codes:
  "validate_block_signatures p block = Inr r \<Longrightarrow> r = 0 \<or> r = 1"
  by (auto simp add: validate_block_signatures_def split: sum.splits option.splits
      dest!: for_each_Some dest: signatures_body_Some)

lemma validate_block_signatures_0_iff:
  "validate_block_signatures p block = Inr 0 \<longleftrightarrow>
     (\<forall>n < unat (transaction_count block).
        \<exists>tx. array_read (transactions block) n = Inr (Some tx) \<and> validate_tx_signatures p tx = 0)"
proof -
  have "validate_block_signatures p block = Inr 0 \<longleftrightarrow>
      for_each [0..<unat (transaction_count block)] (signatures_body p block) = Inr None"
    by (auto simp add: validate_block_signatures_def split: sum.splits option.splits
        dest!: for_each_Some dest: signatures_body_Some)
  then show ?thesis
    by (auto simp add: for_each_None_iff signatures_body_None_iff)
qed

end
